theory Spec2Isabelle
  imports Main "HOL-Library.Word"
begin

unbundle bit_operations_syntax

section \<open>cTCP: the connection engine of ctcp.c\<close>

text \<open>
  A shallow embedding of \<^verbatim>\<open>src/ctcp.c\<close>. Every C function of the file is a HOL function
  of the same name; the structs are records, the enums datatypes, the fixed-width
  integers words. The two linked lists \<^verbatim>\<open>tx_state\<close> and \<^verbatim>\<open>rx_state\<close> are HOL lists
  (front of the list first), the registry \<^verbatim>\<open>state_list\<close> is a list of engines.
  A handler that may spin forever returns an \<open>option\<close>, \<open>None\<close> meaning that it never
  returns; a handler that may call \<^verbatim>\<open>ctcp_destroy\<close> returns an \<open>outcome\<close>.
\<close>

subsection \<open>What the host layer provides\<close>

type_synonym byte = "8 word"

text \<open>
  Modelled from the spec: the declaration of \<^verbatim>\<open>ctcp_segment_t\<close> (ctcp_sys.h) is missing.
  The spec gives the wire header as seqno (4 bytes), ackno (4), len (2), cksum (2),
  flags (4), window (2), all big-endian, followed by the payload. The fields hold the
  host-order values; \<open>wire_bytes\<close> below is the memory image that goes on the wire.
  The fields carry the prefix \<open>seg_\<close> because \<^verbatim>\<open>seqno\<close> and \<^verbatim>\<open>ackno\<close> are also fields of
  \<^verbatim>\<open>Conn_state\<close>.
\<close>

record ctcp_segment =
  seg_seqno :: "32 word"
  seg_ackno :: "32 word"
  seg_len :: "16 word"
  seg_cksum :: "16 word"
  seg_flags :: "32 word"
  seg_window :: "16 word"
  seg_data :: "byte list"

text \<open>Modelled from the spec: \<^verbatim>\<open>sizeof(ctcp_segment_t)\<close>, the 18 bytes of the header above.\<close>

definition sizeof_ctcp_segment :: nat where
  "sizeof_ctcp_segment = 18"

text \<open>
  Modelled from the spec: the macro \<^verbatim>\<open>MAX_SEG_DATA_SIZE\<close> (ctcp_sys.h) is missing; the
  spec's scenarios fix it to 1000.
\<close>

definition MAX_SEG_DATA_SIZE :: nat where
  "MAX_SEG_DATA_SIZE = 1000"

text \<open>
  Modelled from the spec: the flag constants \<^verbatim>\<open>FIN\<close> and \<^verbatim>\<open>ACK\<close> come from the host's
  header; the spec names bit 0x1 for FIN and bit 0x2 for ACK.
\<close>

definition FIN :: "32 word" where
  "FIN = 1"

definition ACK :: "32 word" where
  "ACK = 2"

text \<open>
  Modelled from the spec: the byte-order conversions and the memory image of a segment
  (\<^verbatim>\<open>htons\<close>, \<^verbatim>\<open>htonl\<close> and the struct layout of ctcp_sys.h) are missing; the spec has
  all multi-byte header fields in network byte order, in the order given above.
\<close>

definition be16 :: "16 word \<Rightarrow> byte list" where
  "be16 w = [ucast (drop_bit 8 w), ucast w]"

definition be32 :: "32 word \<Rightarrow> byte list" where
  "be32 w = [ucast (drop_bit 24 w), ucast (drop_bit 16 w), ucast (drop_bit 8 w), ucast w]"

definition wire_bytes :: "ctcp_segment \<Rightarrow> byte list" where
  "wire_bytes seg =
     be32 (seg_seqno seg) @ be32 (seg_ackno seg) @ be16 (seg_len seg) @ be16 (seg_cksum seg)
     @ be32 (seg_flags seg) @ be16 (seg_window seg) @ seg_data seg"

text \<open>
  Modelled from the spec: \<^verbatim>\<open>cksum\<close> (ctcp_utils.h) is missing. The spec calls it the
  internet-style 16-bit one's-complement checksum over the bytes of the segment: the
  bytes are added as big-endian 16-bit words with end-around carry (a trailing odd byte
  is the high half of a word) and the sum is complemented.
\<close>

definition oc_add :: "16 word \<Rightarrow> 16 word \<Rightarrow> 16 word" where
  "oc_add a b = (let s = unat a + unat b in of_nat (s mod 65536 + s div 65536))"

fun oc_sum :: "byte list \<Rightarrow> 16 word" where
  "oc_sum [] = 0"
| "oc_sum [a] = push_bit 8 (ucast a)"
| "oc_sum (a # b # r) = oc_add (push_bit 8 (ucast a) OR ucast b) (oc_sum r)"

definition cksum :: "byte list \<Rightarrow> 16 word" where
  "cksum bs = NOT (oc_sum bs)"

text \<open>
  Modelled from the spec: the connection object \<^verbatim>\<open>conn_t\<close> and the calls
  \<^verbatim>\<open>conn_input\<close>, \<^verbatim>\<open>conn_output\<close>, \<^verbatim>\<open>conn_bufspace\<close>, \<^verbatim>\<open>conn_send\<close> (ctcp_sys.h) are
  missing. The record holds what the engine can observe of its host: the bytes waiting
  on the source and whether end-of-source follows them, the segments the engine has
  built and run its send loop on (oldest first), the free space of the sink, the bytes
  written to the sink, and whether end-of-stream was written to it.
\<close>

record conn_t =
  stdin_bytes :: "byte list"
  stdin_eof :: bool
  datagrams :: "ctcp_segment list"
  stdout_space :: nat
  stdout_bytes :: "byte list"
  stdout_eof :: bool

text \<open>
  Modelled from the spec: \<^verbatim>\<open>conn_input\<close> is the spec's \<^verbatim>\<open>read_source(buf, max)\<close>: a
  positive count and that many bytes, 0 when nothing is waiting, the terminal value -1 at
  end-of-source. Never blocks.
\<close>

definition conn_input :: "conn_t \<Rightarrow> nat \<Rightarrow> int \<times> byte list \<times> conn_t" where
  "conn_input c max_len =
     (if stdin_bytes c = [] then ((if stdin_eof c then - 1 else 0), [], c)
      else (int (length (take max_len (stdin_bytes c))), take max_len (stdin_bytes c),
            c\<lparr>stdin_bytes := drop max_len (stdin_bytes c)\<rparr>))"

text \<open>
  Modelled from the spec: \<^verbatim>\<open>conn_bufspace\<close> is the spec's \<^verbatim>\<open>sink_free_space()\<close>, the
  bytes the sink accepts now.
\<close>

definition conn_bufspace :: "conn_t \<Rightarrow> nat" where
  "conn_bufspace c = stdout_space c"

text \<open>
  Modelled from the spec: \<^verbatim>\<open>conn_output\<close> is the spec's \<^verbatim>\<open>write_sink(bytes, n)\<close>. It
  returns the count written, at most \<open>n\<close> and at most the free space; a call with length
  0 delivers end-of-stream, as \<^verbatim>\<open>ctcp_receive_fin_with_no_ack\<close> uses it.
\<close>

definition conn_output :: "conn_t \<Rightarrow> byte list \<Rightarrow> nat \<Rightarrow> int \<times> conn_t" where
  "conn_output c buf n =
     (if n = 0 then (0, c\<lparr>stdout_eof := True\<rparr>)
      else let k = min (length (take n buf)) (stdout_space c)
           in (int k, c\<lparr>stdout_bytes := stdout_bytes c @ take k buf,
                        stdout_space := stdout_space c - k\<rparr>))"

text \<open>
  Modelled from the spec: \<^verbatim>\<open>conn_send\<close> is the spec's \<^verbatim>\<open>send_datagram(bytes, n)\<close>, which
  returns a count \<open>k\<close>: the carrier takes the first \<open>k\<close> of the \<open>n\<close> bytes it is offered,
  and a short count is legal. \<open>cap\<close> is the most the carrier takes in this call, \<open>buf\<close> the
  memory from the pointer on; the result is the count and the bytes that go on the wire.
\<close>

definition conn_send :: "nat \<Rightarrow> byte list \<Rightarrow> nat \<Rightarrow> nat \<times> byte list" where
  "conn_send cap buf n = (min n cap, take (min n cap) buf)"

text \<open>
  Modelled from the spec: \<^verbatim>\<open>ctcp_config_t\<close> (ctcp_sys.h) is missing; the spec lists its
  four fields, the two times in milliseconds.
\<close>

record ctcp_config_t =
  cfg_recv_window :: "16 word"
  cfg_send_window :: "16 word"
  cfg_timer :: int
  cfg_rt_timeout :: int

subsection \<open>The data of ctcp.c\<close>

datatype Segment_type = DATA_SEG | ACK_SEG | FIN_WITH_ACK | FIN_WITH_NO_ACK

datatype Teardown_state = NO_CLOSE | ACTIVE_CLOSE | PASSIVE_CLOSE

record ACK_state =
  time_out_num :: "8 word"
  counter :: "8 word"
  timer_overflow :: "8 word"
  time_out :: bool

record Conn_state =
  seqno :: "32 word"
  next_seqno :: "32 word"
  ackno :: "32 word"
  last_ackno :: "32 word"
  send_window :: "16 word"
  send_window_used :: "16 word"
  rcv_window :: "16 word"
  rcv_window_used :: "16 word"

record TX_state =
  segment_next_seqno :: "32 word"
  buffer_size :: int
  tx_buffer :: "byte list"

record RX_state =
  byte_used :: int
  byte_left :: int
  rx_buffer :: "byte list"

record ctcp_state =
  conn :: conn_t
  conn_state :: Conn_state
  tx_state :: "TX_state list"
  rx_state :: "RX_state list"
  ack_state :: ACK_state
  segment_teardown :: Teardown_state

text \<open>
  What is left of an engine after a handler: the engine itself, or, after
  \<^verbatim>\<open>ctcp_destroy\<close>, only its connection (the state and both queues are freed), or, after
  a \<^verbatim>\<open>memcpy\<close> with a length that was negative as an \<^verbatim>\<open>int\<close>, a process that has
  crashed, of which the connection shows what it had done until then.
\<close>

datatype outcome = Running ctcp_state | Destroyed conn_t | Crashed conn_t

text \<open>C's \<^verbatim>\<open>/\<close> and \<^verbatim>\<open>%\<close> on \<^verbatim>\<open>int\<close> truncate towards zero.\<close>

definition c_div :: "int \<Rightarrow> int \<Rightarrow> int" where
  "c_div a b = sgn a * sgn b * (\<bar>a\<bar> div \<bar>b\<bar>)"

definition c_mod :: "int \<Rightarrow> int \<Rightarrow> int" where
  "c_mod a b = a - b * c_div a b"

subsection \<open>The functions of ctcp.c\<close>

definition ctcp_init :: "conn_t \<Rightarrow> ctcp_config_t \<Rightarrow> ctcp_state" where
  "ctcp_init c cfg =
     \<lparr>conn = c,
      conn_state = \<lparr>seqno = 1, next_seqno = 1, ackno = 1, last_ackno = 1,
                    send_window = cfg_send_window cfg, send_window_used = 0,
                    rcv_window = cfg_recv_window cfg, rcv_window_used = 0\<rparr>,
      tx_state = [],
      rx_state = [],
      ack_state = \<lparr>time_out_num = 0, counter = 0,
                   timer_overflow =
                     (if c_mod (cfg_rt_timeout cfg) (cfg_timer cfg) = 0
                      then word_of_int (c_div (cfg_rt_timeout cfg) (cfg_timer cfg))
                      else word_of_int (c_div (cfg_rt_timeout cfg) (cfg_timer cfg) + 1)),
                   time_out = False\<rparr>,
      segment_teardown = NO_CLOSE\<rparr>"

definition ctcp_destroy :: "ctcp_state \<Rightarrow> outcome" where
  "ctcp_destroy state = Destroyed (conn state)"

text \<open>
  The window field both senders write:
  \<^verbatim>\<open>htons(MAX_SEG_DATA_SIZE * ((rcv_window - rcv_window_used) / MAX_SEG_DATA_SIZE))\<close>,
  computed on \<^verbatim>\<open>int\<close> and cut to 16 bits.
\<close>

definition advertised_window :: "Conn_state \<Rightarrow> 16 word" where
  "advertised_window cs =
     word_of_int (int MAX_SEG_DATA_SIZE *
       c_div (uint (rcv_window cs) - uint (rcv_window_used cs)) (int MAX_SEG_DATA_SIZE))"

text \<open>
  The loop both senders end in (ctcp.c:233-237 and 349-353):

  \<^verbatim>\<open>while(byte_left > 0) {\<close>
  \<^verbatim>\<open>  byte_sent = conn_send(state->conn, segment + segment_len - byte_left, byte_left);\<close>
  \<^verbatim>\<open>  byte_left -= byte_sent; }\<close>

  \<^verbatim>\<open>segment\<close> is a \<^verbatim>\<open>ctcp_segment_t *\<close>, so the sum moves it by
  \<^verbatim>\<open>segment_len - byte_left\<close> elements of \<^verbatim>\<open>sizeof(ctcp_segment_t)\<close> bytes each. \<open>memory\<close>
  is what lies at the address of the segment: its bytes, followed by whatever the
  process holds beyond them. \<open>caps\<close> lists the most the carrier takes in each of the
  calls to come; once the list is used up the carrier takes all it is offered.
  \<open>byte_left'\<close> is the local \<^verbatim>\<open>byte_left\<close>. The result is the bytes each call of
  \<^verbatim>\<open>conn_send\<close> puts on the wire, in order.
\<close>

fun send_retry_loop :: "nat list \<Rightarrow> byte list \<Rightarrow> nat \<Rightarrow> nat \<Rightarrow> byte list list" where
  "send_retry_loop [] memory segment_len byte_left' =
     (if byte_left' > 0
      then [snd (conn_send byte_left'
                   (drop (sizeof_ctcp_segment * (segment_len - byte_left')) memory) byte_left')]
      else [])"
| "send_retry_loop (cap # caps) memory segment_len byte_left' =
     (if byte_left' > 0
      then (let sent = conn_send cap
                         (drop (sizeof_ctcp_segment * (segment_len - byte_left')) memory)
                         byte_left'
            in snd sent # send_retry_loop caps memory segment_len (byte_left' - fst sent))
      else [])"

text \<open>
  The loop reads and writes no field of the engine: whatever counts the carrier returns,
  the engine is the same after it. In the two senders below \<open>send_segment\<close> stands where
  the loop stands in ctcp.c: it records in the connection the segment the sender has
  built and runs the loop on. The bytes that reach the wire for that segment are those of
  \<open>send_retry_loop\<close> on the memory that starts with \<open>wire_bytes\<close> of the segment; they
  are the bytes of the segment when the carrier takes all of them in the first call.
\<close>

definition send_segment :: "conn_t \<Rightarrow> ctcp_segment \<Rightarrow> conn_t" where
  "send_segment c seg = c\<lparr>datagrams := datagrams c @ [seg]\<rparr>"

text \<open>
  \<^verbatim>\<open>ctcp_send_data_segment\<close>, for a node that is not NULL: returns the engine and the
  node, whose tag it overwrites. The loop runs on \<open>data_segment\<close> with
  \<open>segment_len = data_seg_len\<close>.
\<close>

definition ctcp_send_data_segment :: "ctcp_state \<Rightarrow> TX_state \<Rightarrow> ctcp_state \<times> TX_state" where
  "ctcp_send_data_segment state tx_state_node =
     (let cs = conn_state state;
          new_next = next_seqno cs + word_of_int (buffer_size tx_state_node);
          data_seg_len = int sizeof_ctcp_segment + buffer_size tx_state_node;
          seg0 = \<lparr>seg_seqno = next_seqno cs, seg_ackno = ackno cs,
                  seg_len = word_of_int data_seg_len, seg_cksum = 0, seg_flags = 0,
                  seg_window = advertised_window cs,
                  seg_data = take (nat (buffer_size tx_state_node)) (tx_buffer tx_state_node)\<rparr>;
          data_segment = seg0\<lparr>seg_cksum := cksum (take (nat data_seg_len) (wire_bytes seg0))\<rparr>
      in (state\<lparr>conn := send_segment (conn state) data_segment,
                conn_state := cs\<lparr>next_seqno := new_next\<rparr>,
                ack_state := (ack_state state)\<lparr>time_out := True\<rparr>\<rparr>,
          tx_state_node\<lparr>segment_next_seqno := new_next\<rparr>))"

text \<open>The \<^verbatim>\<open>while\<close> of \<^verbatim>\<open>ctcp_send_possible_data_segment\<close>, from the node it has reached.\<close>

fun send_window_loop :: "TX_state list \<Rightarrow> ctcp_state \<Rightarrow> TX_state list \<times> ctcp_state" where
  "send_window_loop [] state = ([], state)"
| "send_window_loop (node # nodes) state =
     (if buffer_size node + uint (send_window_used (conn_state state))
           > uint (send_window (conn_state state))
      then (node # nodes, state)
      else
        (let sent = ctcp_send_data_segment state node;
             state1 = fst sent;
             state2 = state1\<lparr>conn_state := (conn_state state1)
                        \<lparr>send_window_used := send_window_used (conn_state state1)
                                              + word_of_int (buffer_size node)\<rparr>\<rparr>;
             r = send_window_loop nodes state2
         in (snd sent # fst r, snd r)))"

definition ctcp_send_possible_data_segment :: "ctcp_state \<Rightarrow> ctcp_state" where
  "ctcp_send_possible_data_segment state =
     (let state0 = state\<lparr>conn_state := (conn_state state)
                      \<lparr>send_window_used := 0, next_seqno := seqno (conn_state state)\<rparr>\<rparr>;
          r = send_window_loop (tx_state state0) state0
      in (snd r)\<lparr>tx_state := fst r\<rparr>)"

text \<open>
  \<^verbatim>\<open>ctcp_send_flags\<close>. The loop runs on \<open>ack_segment\<close> with
  \<open>segment_len = sizeof_ctcp_segment\<close>.
\<close>

definition ctcp_send_flags :: "ctcp_state \<Rightarrow> 32 word \<Rightarrow> 32 word \<Rightarrow> ctcp_state" where
  "ctcp_send_flags state ackno_arg flags =
     (let cs = conn_state state;
          seg0 = \<lparr>seg_seqno = seqno cs, seg_ackno = ackno_arg,
                  seg_len = of_nat sizeof_ctcp_segment, seg_cksum = 0, seg_flags = flags,
                  seg_window = advertised_window cs, seg_data = []\<rparr>;
          ack_segment = seg0\<lparr>seg_cksum := cksum (take sizeof_ctcp_segment (wire_bytes seg0))\<rparr>
      in state\<lparr>conn := send_segment (conn state) ack_segment\<rparr>)"

text \<open>
  The empty loop \<^verbatim>\<open>while(q->length > 0);\<close>: nothing in its body changes the length, so it
  returns when the queue is empty and spins forever otherwise.
\<close>

partial_function (option) busy_wait :: "nat \<Rightarrow> unit option" where
  "busy_wait queue_length = (if queue_length > 0 then busy_wait queue_length else Some ())"

declare busy_wait.simps [code]

definition truncate_sentinel :: "byte list" where
  "truncate_sentinel = map (of_nat \<circ> of_char) ''###truncate###''"

text \<open>
  The \<^verbatim>\<open>while\<close> of \<^verbatim>\<open>ctcp_read\<close>. \<open>None\<close>: one of the two empty loops at end-of-source
  never ends.
\<close>

function ctcp_read_loop :: "ctcp_state \<Rightarrow> ctcp_state option" where
  "ctcp_read_loop state =
     (let r = conn_input (conn state) MAX_SEG_DATA_SIZE;
          byte_read = fst r;
          tx_buffer_read = fst (snd r);
          state1 = state\<lparr>conn := snd (snd r)\<rparr>
      in if byte_read < - 1 then Some state1
         else if byte_read = 0 then Some state1
         else if byte_read = - 1 then
           (case busy_wait (length (rx_state state1)) of
              None \<Rightarrow> None
            | Some _ \<Rightarrow>
               (case busy_wait (length (tx_state state1)) of
                  None \<Rightarrow> None
                | Some _ \<Rightarrow>
                   (let state2 = ctcp_send_flags (state1\<lparr>segment_teardown := ACTIVE_CLOSE\<rparr>)
                                   (ackno (conn_state state1)) FIN
                    in Some (state2\<lparr>ack_state := (ack_state state2)\<lparr>time_out := True\<rparr>\<rparr>))))
         else if byte_read > 14 \<and> take 14 tx_buffer_read = truncate_sentinel then Some state1
         else ctcp_read_loop
                (state1\<lparr>tx_state := tx_state state1 @
                   [\<lparr>segment_next_seqno = 0, buffer_size = byte_read,
                     tx_buffer = tx_buffer_read\<rparr>]\<rparr>))"
  by pat_completeness auto
termination
proof (relation "measure (\<lambda>state. length (stdin_bytes (conn state)))")
  show "wf (measure (\<lambda>state. length (stdin_bytes (conn state))))" by simp
next
  fix state :: ctcp_state and r byte_read tx_buffer_read state1
  assume r: "r = conn_input (conn state) MAX_SEG_DATA_SIZE"
    and b: "byte_read = fst r" and s: "state1 = state\<lparr>conn := snd (snd r)\<rparr>"
    and n0: "byte_read \<noteq> 0" and n1: "byte_read \<noteq> - 1" and n2: "\<not> byte_read < - 1"
  have "stdin_bytes (conn state) \<noteq> []"
    using r b n0 n1 by (auto simp: conn_input_def split: if_splits)
  then have "length (stdin_bytes (snd (snd r))) < length (stdin_bytes (conn state))"
    using r by (simp add: conn_input_def MAX_SEG_DATA_SIZE_def)
  then show "(state1\<lparr>tx_state := tx_state state1 @
                 [\<lparr>segment_next_seqno = 0, buffer_size = byte_read,
                   tx_buffer = tx_buffer_read\<rparr>]\<rparr>, state)
             \<in> measure (\<lambda>state. length (stdin_bytes (conn state)))"
    using s by simp
qed

definition ctcp_read :: "ctcp_state \<Rightarrow> ctcp_state option" where
  "ctcp_read state =
     (case ctcp_read_loop state of
        None \<Rightarrow> None
      | Some state1 \<Rightarrow> Some (ctcp_send_possible_data_segment state1))"

declare ctcp_read_loop.simps [simp del]

text \<open>
  The \<^verbatim>\<open>while\<close> of \<^verbatim>\<open>ctcp_output\<close>, from the node it has reached. The comparison of
  \<^verbatim>\<open>byte_left\<close> (an \<^verbatim>\<open>int\<close>) with \<^verbatim>\<open>avai_space\<close> (a \<^verbatim>\<open>size_t\<close>) is unsigned, so a negative
  \<^verbatim>\<open>byte_left\<close> is larger than any space.
\<close>

fun ctcp_output_loop :: "RX_state list \<Rightarrow> ctcp_state \<Rightarrow> RX_state list \<times> ctcp_state" where
  "ctcp_output_loop [] state = ([], state)"
| "ctcp_output_loop (node # nodes) state =
     (let avai_space = conn_bufspace (conn state)
      in if avai_space = 0 \<or> byte_left node < 0 \<or> nat (byte_left node) > avai_space
         then (node # nodes, state)
         else
           (let w = conn_output (conn state) (drop (nat (byte_used node)) (rx_buffer node))
                      (nat (byte_left node));
                byte_sent = fst w;
                node1 = node\<lparr>byte_used := byte_used node + byte_sent,
                             byte_left := byte_left node - byte_sent\<rparr>;
                state1 = state\<lparr>conn := snd w,
                               conn_state := (conn_state state)
                                 \<lparr>rcv_window_used := rcv_window_used (conn_state state)
                                                      - word_of_int byte_sent\<rparr>\<rparr>
            in if byte_left node1 \<le> 0
               then ctcp_output_loop nodes
                      (ctcp_send_flags state1 (ackno (conn_state state1)) ACK)
               else (node1 # nodes, state1)))"

definition ctcp_output :: "ctcp_state \<Rightarrow> ctcp_state" where
  "ctcp_output state =
     (let r = ctcp_output_loop (rx_state state) state in (snd r)\<lparr>rx_state := fst r\<rparr>)"

text \<open>
  \<^verbatim>\<open>ctcp_receive_data_segment\<close>. \<^verbatim>\<open>data_seg_len\<close> is an \<^verbatim>\<open>int\<close> and negative when fewer
  bytes than a header were received. Such a length passes the window test, and
  \<^verbatim>\<open>memcpy\<close> takes it as a \<^verbatim>\<open>size_t\<close>: the copy runs off the segment and the process
  crashes.
\<close>

definition ctcp_receive_data_segment :: "ctcp_state \<Rightarrow> ctcp_segment \<Rightarrow> nat \<Rightarrow> outcome" where
  "ctcp_receive_data_segment state segment len =
     (let cs = conn_state state;
          data_seg_len = int len - int sizeof_ctcp_segment
      in if uint (rcv_window_used cs) + data_seg_len \<le> uint (rcv_window cs)
         then
           (if data_seg_len < 0 then Crashed (conn state)
            else Running (ctcp_output
              (state\<lparr>conn_state := cs
                        \<lparr>last_ackno := ackno cs,
                         ackno := seg_seqno segment + ucast (seg_len segment)
                                  - of_nat sizeof_ctcp_segment,
                         rcv_window_used := rcv_window_used cs + word_of_int data_seg_len\<rparr>,
                      rx_state := rx_state state @
                        [\<lparr>byte_used = 0, byte_left = data_seg_len,
                          rx_buffer = take (nat data_seg_len) (seg_data segment)\<rparr>]\<rparr>)))
         else Running (ctcp_output state))"

text \<open>\<open>None\<close>: the empty loop on the Receive Queue never ends.\<close>

definition ctcp_receive_fin_with_no_ack :: "ctcp_state \<Rightarrow> ctcp_segment \<Rightarrow> outcome option" where
  "ctcp_receive_fin_with_no_ack state segment =
     (let cs = conn_state state;
          state1 = state\<lparr>conn_state := cs\<lparr>last_ackno := ackno cs,
                                          ackno := seg_seqno segment + 1\<rparr>\<rparr>
      in if segment_teardown state1 \<noteq> ACTIVE_CLOSE then
           (let state2 = state1\<lparr>conn := snd (conn_output (conn state1) [] 0)\<rparr>;
                state3 = ctcp_send_flags state2 (ackno (conn_state state2)) ACK
            in case busy_wait (length (rx_state state3)) of
                 None \<Rightarrow> None
               | Some _ \<Rightarrow>
                  (let state4 = ctcp_send_flags state3 (ackno (conn_state state3)) FIN
                   in Some (Running (state4\<lparr>ack_state := (ack_state state4)\<lparr>time_out := True\<rparr>,
                                            segment_teardown := PASSIVE_CLOSE\<rparr>))))
         else Some (ctcp_destroy (ctcp_send_flags state1 (ackno (conn_state state1)) ACK)))"

text \<open>
  The \<^verbatim>\<open>while\<close> of the \<^verbatim>\<open>ACK_SEG\<close> case, from the node it has reached: the Send Queue
  that is left, and the connection counters.
\<close>

fun ack_loop :: "32 word \<Rightarrow> TX_state list \<Rightarrow> Conn_state \<Rightarrow> TX_state list \<times> Conn_state" where
  "ack_loop segment_ackno [] cs = ([], cs)"
| "ack_loop segment_ackno (node # nodes) cs =
     (if segment_ackno \<ge> segment_next_seqno node \<and> segment_next_seqno node > 0
      then ack_loop segment_ackno nodes
             (cs\<lparr>seqno := segment_next_seqno node,
                 send_window_used := send_window_used cs - word_of_int (buffer_size node)\<rparr>)
      else (node # nodes, cs))"

definition segment_type :: "ctcp_segment \<Rightarrow> Segment_type" where
  "segment_type segment =
     (if seg_flags segment AND FIN \<noteq> 0
      then (if seg_flags segment AND ACK \<noteq> 0 then FIN_WITH_ACK else FIN_WITH_NO_ACK)
      else if seg_flags segment AND ACK \<noteq> 0 then ACK_SEG
      else DATA_SEG)"

text \<open>
  \<^verbatim>\<open>ctcp_receive\<close>; \<open>len\<close> is the count of bytes received, \<open>seg_len segment\<close> the length
  the header declares.
\<close>

definition ctcp_receive :: "ctcp_state \<Rightarrow> ctcp_segment \<Rightarrow> nat \<Rightarrow> outcome option" where
  "ctcp_receive state segment len =
     (if seg_seqno segment \<noteq> ackno (conn_state state)
         \<and> seg_seqno segment = last_ackno (conn_state state)
         \<and> seg_flags segment AND ACK = 0
      then Some (Running (ctcp_send_flags state (last_ackno (conn_state state)) ACK))
      else if len \<noteq> unat (seg_len segment) then Some (Running state)
      else if seg_cksum segment \<noteq> cksum (take len (wire_bytes (segment\<lparr>seg_cksum := 0\<rparr>)))
      then Some (Running state)
      else
        (case segment_type segment of
           DATA_SEG \<Rightarrow> Some (ctcp_receive_data_segment state segment len)
         | ACK_SEG \<Rightarrow>
             (if segment_teardown state = PASSIVE_CLOSE then Some (ctcp_destroy state)
              else
                (case tx_state state of
                   [] \<Rightarrow> Some (Running state)
                 | tx_state_node # _ \<Rightarrow>
                     (if seg_ackno segment \<ge> segment_next_seqno tx_state_node
                      then
                        (let r = ack_loop (seg_ackno segment) (tx_state state) (conn_state state);
                             state1 = state\<lparr>tx_state := fst r, conn_state := snd r\<rparr>;
                             state2 =
                               (if seg_ackno segment = next_seqno (conn_state state1)
                                then state1\<lparr>ack_state := (ack_state state1)\<lparr>time_out := False\<rparr>\<rparr>
                                else state1)
                         in Some (Running
                              (state2\<lparr>ack_state := (ack_state state2)
                                        \<lparr>counter := 0, time_out_num := 0\<rparr>\<rparr>)))
                      else Some (Running state))))
         | FIN_WITH_ACK \<Rightarrow>
             (let state1 = state\<lparr>conn_state := (conn_state state)
                                  \<lparr>ackno := seg_seqno segment + 1\<rparr>\<rparr>
              in Some (ctcp_destroy (ctcp_send_flags state1 (ackno (conn_state state1)) ACK)))
         | FIN_WITH_NO_ACK \<Rightarrow> ctcp_receive_fin_with_no_ack state segment))"

text \<open>
  One pass through the body of the \<^verbatim>\<open>while\<close> of \<^verbatim>\<open>ctcp_timer\<close> for the engine
  \<^verbatim>\<open>cur_state\<close>; the flag is \<open>False\<close> when the pass ends in \<^verbatim>\<open>continue\<close>, which skips
  \<^verbatim>\<open>cur_state = cur_state->next\<close>.
\<close>

definition ctcp_timer_body :: "ctcp_state \<Rightarrow> ctcp_state \<times> bool" where
  "ctcp_timer_body cur_state =
     (if time_out (ack_state cur_state) then
        (let s1 = cur_state\<lparr>ack_state := (ack_state cur_state)
                              \<lparr>counter := counter (ack_state cur_state) + 1\<rparr>\<rparr>
         in if counter (ack_state s1) = timer_overflow (ack_state s1) then
              (let s2 = s1\<lparr>ack_state := (ack_state s1)
                              \<lparr>counter := 0, time_out_num := time_out_num (ack_state s1) + 1\<rparr>\<rparr>
               in if time_out_num (ack_state s2) = 6 then
                    (let s3 = ctcp_send_flags s2 (ackno (conn_state s2)) FIN
                     in (s3\<lparr>ack_state := (ack_state s3)\<lparr>time_out := True\<rparr>,
                            segment_teardown := ACTIVE_CLOSE\<rparr>, False))
                  else if segment_teardown s2 = ACTIVE_CLOSE
                          \<or> segment_teardown s2 = PASSIVE_CLOSE
                  then (ctcp_send_flags s2 (last_ackno (conn_state s2)) FIN, True)
                  else if segment_teardown s2 = NO_CLOSE
                  then (ctcp_send_possible_data_segment s2, True)
                  else (s2, True))
            else (s1, True))
      else
        (let s1 = ctcp_send_possible_data_segment cur_state
         in ((if length (rx_state s1) > 0 then ctcp_output s1 else s1), True)))"

text \<open>A pass ends in \<^verbatim>\<open>continue\<close> only by taking \<open>time_out_num\<close> from 5 to 6.\<close>

lemma ctcp_timer_body_continue:
  assumes "\<not> snd (ctcp_timer_body s)"
  shows "time_out_num (ack_state (fst (ctcp_timer_body s))) = 6"
    and "time_out_num (ack_state s) \<noteq> 6"
proof -
  from assms have c: "time_out_num (ack_state s) + 1 = 6"
    by (auto simp: ctcp_timer_body_def Let_def split: if_splits)
  from assms show "time_out_num (ack_state (fst (ctcp_timer_body s))) = 6"
    by (auto simp: ctcp_timer_body_def Let_def ctcp_send_flags_def split: if_splits)
  from c show "time_out_num (ack_state s) \<noteq> 6" by auto
qed

text \<open>
  The \<^verbatim>\<open>while\<close> of \<^verbatim>\<open>ctcp_timer\<close> over the registry, from the engine it has reached:
  after \<^verbatim>\<open>continue\<close> the same engine is visited again.
\<close>

function ctcp_timer_loop :: "ctcp_state list \<Rightarrow> ctcp_state list" where
  "ctcp_timer_loop [] = []"
| "ctcp_timer_loop (cur_state # rest) =
     (if snd (ctcp_timer_body cur_state)
      then fst (ctcp_timer_body cur_state) # ctcp_timer_loop rest
      else ctcp_timer_loop (fst (ctcp_timer_body cur_state) # rest))"
  by pat_completeness auto

termination
proof (relation "measure (\<lambda>l. 2 * length l
          + (case l of [] \<Rightarrow> 0 | s # _ \<Rightarrow> if time_out_num (ack_state s) = 6 then 0 else 1))")
  show "wf (measure (\<lambda>l. 2 * length l
          + (case l of [] \<Rightarrow> 0 | s # _ \<Rightarrow> if time_out_num (ack_state s) = 6 then 0 else 1)))"
    by simp
next
  fix cur_state :: ctcp_state and rest
  show "(rest, cur_state # rest) \<in> measure (\<lambda>l. 2 * length l
          + (case l of [] \<Rightarrow> 0 | s # _ \<Rightarrow> if time_out_num (ack_state s) = 6 then 0 else 1))"
    by (simp split: list.splits)
next
  fix cur_state :: ctcp_state and rest
  assume "\<not> snd (ctcp_timer_body cur_state)"
  then show "(fst (ctcp_timer_body cur_state) # rest, cur_state # rest)
      \<in> measure (\<lambda>l. 2 * length l
          + (case l of [] \<Rightarrow> 0 | s # _ \<Rightarrow> if time_out_num (ack_state s) = 6 then 0 else 1))"
    using ctcp_timer_body_continue [of cur_state] by simp
qed

declare ctcp_timer_loop.simps(2) [simp del]

definition ctcp_timer :: "ctcp_state list \<Rightarrow> ctcp_state list" where
  "ctcp_timer state_list = (if state_list = [] then [] else ctcp_timer_loop state_list)"

subsection \<open>Notions used in the statements\<close>

text \<open>
  A Send Queue element is acknowledged by the number \<open>A\<close> when its tag is positive and
  at most \<open>A\<close>: the test of the \<^verbatim>\<open>while\<close> in the \<^verbatim>\<open>ACK_SEG\<close> case.
\<close>

definition acked :: "32 word \<Rightarrow> TX_state \<Rightarrow> bool" where
  "acked A node \<longleftrightarrow> segment_next_seqno node \<le> A \<and> 0 < segment_next_seqno node"

text \<open>
  The first test of \<^verbatim>\<open>ctcp_receive\<close>: the segment repeats the sequence number the engine
  acknowledged before the current one, and carries no ACK bit.
\<close>

definition duplicate_data :: "ctcp_state \<Rightarrow> ctcp_segment \<Rightarrow> bool" where
  "duplicate_data state segment \<longleftrightarrow>
     seg_seqno segment \<noteq> ackno (conn_state state)
     \<and> seg_seqno segment = last_ackno (conn_state state)
     \<and> seg_flags segment AND ACK = 0"

text \<open>The checksum test of \<^verbatim>\<open>ctcp_receive\<close> passes.\<close>

definition checksum_ok :: "ctcp_segment \<Rightarrow> nat \<Rightarrow> bool" where
  "checksum_ok segment len \<longleftrightarrow>
     seg_cksum segment = cksum (take len (wire_bytes (segment\<lparr>seg_cksum := 0\<rparr>)))"

text \<open>The window test of \<^verbatim>\<open>ctcp_receive_data_segment\<close> passes.\<close>

definition fits_window :: "ctcp_state \<Rightarrow> nat \<Rightarrow> bool" where
  "fits_window state len \<longleftrightarrow>
     uint (rcv_window_used (conn_state state)) + (int len - int sizeof_ctcp_segment)
       \<le> uint (rcv_window (conn_state state))"

text \<open>The segment gets through all four tests.\<close>

definition accepted :: "ctcp_state \<Rightarrow> ctcp_segment \<Rightarrow> nat \<Rightarrow> bool" where
  "accepted state segment len \<longleftrightarrow>
     \<not> duplicate_data state segment \<and> len = unat (seg_len segment)
     \<and> checksum_ok segment len \<and> fits_window state len"

text \<open>The Receive Queue element \<^verbatim>\<open>ctcp_receive_data_segment\<close> builds for a segment.\<close>

definition rx_element :: "ctcp_segment \<Rightarrow> nat \<Rightarrow> RX_state" where
  "rx_element segment len =
     \<lparr>byte_used = 0, byte_left = int len - int sizeof_ctcp_segment,
      rx_buffer = take (nat (int len - int sizeof_ctcp_segment)) (seg_data segment)\<rparr>"

text \<open>
  The checksum a datagram carries is the checksum of its bytes with the checksum field
  zeroed.
\<close>

definition cksum_verifies :: "ctcp_segment \<Rightarrow> bool" where
  "cksum_verifies d \<longleftrightarrow> seg_cksum d = cksum (wire_bytes (d\<lparr>seg_cksum := 0\<rparr>))"

text \<open>
  The same for the bytes of a datagram on the wire: they hold a header, and its checksum
  field (bytes 10 and 11) is the checksum of the bytes with that field zeroed.
\<close>

definition bytes_verify :: "byte list \<Rightarrow> bool" where
  "bytes_verify bs \<longleftrightarrow>
     sizeof_ctcp_segment \<le> length bs
     \<and> take 2 (drop 10 bs) = be16 (cksum (take 10 bs @ [0, 0] @ drop 12 bs))"

text \<open>
  Between two states of a connection the engine has built zero or more segments and run
  its send loop on them, each with a checksum that verifies.
\<close>

definition emits_verified :: "conn_t \<Rightarrow> conn_t \<Rightarrow> bool" where
  "emits_verified c c' \<longleftrightarrow>
     (\<exists>new. datagrams c' = datagrams c @ new \<and> list_all cksum_verifies new)"

text \<open>The connection an outcome leaves behind.\<close>

fun outcome_conn :: "outcome \<Rightarrow> conn_t" where
  "outcome_conn (Running state) = conn state"
| "outcome_conn (Destroyed c) = c"
| "outcome_conn (Crashed c) = c"

text \<open>
  The three ways one pass of the \<^verbatim>\<open>while\<close> of \<^verbatim>\<open>ctcp_read\<close> goes on when the source has
  bytes or has ended: a chunk is queued, end-of-source sends the FIN, or the chunk starts
  with the truncation sentinel.
\<close>

definition read_chunk :: "ctcp_state \<Rightarrow> ctcp_state" where
  "read_chunk state =
     state\<lparr>conn := (conn state)
              \<lparr>stdin_bytes := drop MAX_SEG_DATA_SIZE (stdin_bytes (conn state))\<rparr>,
           tx_state := tx_state state @
              [\<lparr>segment_next_seqno = 0,
                buffer_size = int (length (take MAX_SEG_DATA_SIZE (stdin_bytes (conn state)))),
                tx_buffer = take MAX_SEG_DATA_SIZE (stdin_bytes (conn state))\<rparr>]\<rparr>"

definition read_eof :: "ctcp_state \<Rightarrow> ctcp_state" where
  "read_eof state =
     (ctcp_send_flags (state\<lparr>segment_teardown := ACTIVE_CLOSE\<rparr>) (ackno (conn_state state)) FIN)
       \<lparr>ack_state := (ack_state state)\<lparr>time_out := True\<rparr>\<rparr>"

definition read_truncated :: "ctcp_state \<Rightarrow> bool" where
  "read_truncated state \<longleftrightarrow>
     14 < length (take MAX_SEG_DATA_SIZE (stdin_bytes (conn state)))
     \<and> take 14 (stdin_bytes (conn state)) = truncate_sentinel"

text \<open>
  The bookkeeping of the Send Queue. \<open>sent_prefix used base nodes\<close>: the elements that
  have been transmitted form a prefix of the queue whose payload lengths add up to
  \<open>used\<close>; the tag of each of them is the tag before it (\<open>base\<close> for the first) plus
  its payload length; every element after the prefix still has the tag 0 that
  \<^verbatim>\<open>calloc\<close> gave it.
\<close>

fun sent_prefix :: "int \<Rightarrow> 32 word \<Rightarrow> TX_state list \<Rightarrow> bool" where
  "sent_prefix used base [] = (used = 0)"
| "sent_prefix used base (node # nodes) =
     (if used = 0 then list_all (\<lambda>n. segment_next_seqno n = 0) (node # nodes)
      else buffer_size node \<le> used
           \<and> segment_next_seqno node = base + word_of_int (buffer_size node)
           \<and> sent_prefix (used - buffer_size node) (segment_next_seqno node) nodes)"

text \<open>
  The invariant of the sending side: the window is not overdrawn, every queued payload
  is non-empty, and \<open>send_window_used\<close> and \<open>seqno\<close> describe the transmitted prefix.
\<close>

definition tx_inv :: "ctcp_state \<Rightarrow> bool" where
  "tx_inv state \<longleftrightarrow>
     send_window_used (conn_state state) \<le> send_window (conn_state state)
     \<and> list_all (\<lambda>node. 0 < buffer_size node) (tx_state state)
     \<and> sent_prefix (uint (send_window_used (conn_state state))) (seqno (conn_state state))
          (tx_state state)"

text \<open>
  The invariant of the receiving side: the window is not overdrawn, and
  \<open>rcv_window_used\<close> is the number of bytes the Receive Queue still has to deliver.
\<close>

definition rx_inv :: "ctcp_state \<Rightarrow> bool" where
  "rx_inv state \<longleftrightarrow>
     rcv_window_used (conn_state state) \<le> rcv_window (conn_state state)
     \<and> list_all (\<lambda>node. 0 \<le> byte_left node) (rx_state state)
     \<and> uint (rcv_window_used (conn_state state)) = sum_list (map byte_left (rx_state state))"

definition engine_inv :: "ctcp_state \<Rightarrow> bool" where
  "engine_inv state \<longleftrightarrow> tx_inv state \<and> rx_inv state"

text \<open>
  A segment arrives in order: it carries the sequence number the engine expects, and the
  32-bit sequence space does not wrap within it.
\<close>

definition in_order :: "ctcp_state \<Rightarrow> ctcp_segment \<Rightarrow> nat \<Rightarrow> bool" where
  "in_order state segment len \<longleftrightarrow>
     seg_seqno segment = ackno (conn_state state)
     \<and> uint (ackno (conn_state state)) + int len < 2 ^ 32"

text \<open>
  The engine after the \<^verbatim>\<open>ACK_SEG\<close> case has run its loop, the disarm test and the reset.
\<close>

definition ack_result :: "ctcp_state \<Rightarrow> 32 word \<Rightarrow> ctcp_state" where
  "ack_result state A =
     state\<lparr>tx_state := fst (ack_loop A (tx_state state) (conn_state state)),
           conn_state := snd (ack_loop A (tx_state state) (conn_state state)),
           ack_state := (ack_state state)
             \<lparr>time_out := time_out (ack_state state) \<and> A \<noteq> next_seqno (conn_state state),
              counter := 0, time_out_num := 0\<rparr>\<rparr>"

text \<open>The connection counters an outcome leaves behind, if the engine is still there.\<close>

fun outcome_counters :: "outcome \<Rightarrow> Conn_state option" where
  "outcome_counters (Running state) = Some (conn_state state)"
| "outcome_counters (Destroyed c) = None"
| "outcome_counters (Crashed c) = None"

subsection \<open>Concrete engines and segments\<close>

text \<open>The configuration of the spec's scenarios; it gives \<^verbatim>\<open>timer_overflow\<close> = 5.\<close>

definition ex_cfg :: ctcp_config_t where
  "ex_cfg = \<lparr>cfg_recv_window = 2000, cfg_send_window = 2000,
             cfg_timer = 40, cfg_rt_timeout = 200\<rparr>"

text \<open>A connection with nothing to read, nothing sent yet, and a sink with the given space.\<close>

definition idle_conn :: "nat \<Rightarrow> conn_t" where
  "idle_conn space = \<lparr>stdin_bytes = [], stdin_eof = False, datagrams = [],
                      stdout_space = space, stdout_bytes = [], stdout_eof = False\<rparr>"

text \<open>
  A sender in the middle of a transfer: two payloads of 1000 bytes are in flight
  (tags 1001 and 2001), a third one waits for window space, the timer is armed and has
  run for a while.
\<close>

definition sender_state :: ctcp_state where
  "sender_state =
     \<lparr>conn = idle_conn 0,
      conn_state = \<lparr>seqno = 1, next_seqno = 2001, ackno = 1, last_ackno = 1,
                    send_window = 2000, send_window_used = 2000,
                    rcv_window = 2000, rcv_window_used = 0\<rparr>,
      tx_state = [\<lparr>segment_next_seqno = 1001, buffer_size = 1000,
                    tx_buffer = replicate 1000 97\<rparr>,
                  \<lparr>segment_next_seqno = 2001, buffer_size = 1000,
                    tx_buffer = replicate 1000 98\<rparr>,
                  \<lparr>segment_next_seqno = 0, buffer_size = 500,
                    tx_buffer = replicate 500 99\<rparr>],
      rx_state = [],
      ack_state = \<lparr>time_out_num = 2, counter = 3, timer_overflow = 5, time_out = True\<rparr>,
      segment_teardown = NO_CLOSE\<rparr>"

text \<open>Pure ACK segments as the peer's \<^verbatim>\<open>ctcp_send_flags\<close> builds them, checksum included.\<close>

definition ack_2001 :: ctcp_segment where
  "ack_2001 = \<lparr>seg_seqno = 1, seg_ackno = 2001, seg_len = 18, seg_cksum = 61513,
               seg_flags = 2, seg_window = 2000, seg_data = []\<rparr>"

definition ack_1 :: ctcp_segment where
  "ack_1 = \<lparr>seg_seqno = 1, seg_ackno = 1, seg_len = 18, seg_cksum = 63513,
            seg_flags = 2, seg_window = 2000, seg_data = []\<rparr>"

text \<open>DATA segments as the peer's \<^verbatim>\<open>ctcp_send_data_segment\<close> builds them.\<close>

definition hello :: "byte list" where
  "hello = [104, 101, 108, 108, 111]"

definition world :: "byte list" where
  "world = [119, 111, 114, 108, 100]"

definition hello_segment :: ctcp_segment where
  "hello_segment = \<lparr>seg_seqno = 1, seg_ackno = 1, seg_len = 23, seg_cksum = 46148,
                    seg_flags = 0, seg_window = 2000, seg_data = hello\<rparr>"

definition world_segment :: ctcp_segment where
  "world_segment = \<lparr>seg_seqno = 6, seg_ackno = 1, seg_len = 23, seg_cksum = 43573,
                    seg_flags = 0, seg_window = 2000, seg_data = world\<rparr>"

text \<open>The same payload under a sequence number nobody expects.\<close>

definition stray_segment :: ctcp_segment where
  "stray_segment = \<lparr>seg_seqno = 500, seg_ackno = 1, seg_len = 23, seg_cksum = 45649,
                    seg_flags = 0, seg_window = 2000, seg_data = hello\<rparr>"

text \<open>
  A datagram of 17 bytes, one short of a header, whose length field and checksum agree
  with the bytes that arrived.
\<close>

definition short_segment :: ctcp_segment where
  "short_segment = \<lparr>seg_seqno = 1, seg_ackno = 1, seg_len = 17, seg_cksum = 63724,
                    seg_flags = 0, seg_window = 2000, seg_data = []\<rparr>"

text \<open>\<open>hello_segment\<close> cut to 20 bytes on the way, and with its last byte changed.\<close>

definition hello_truncated :: ctcp_segment where
  "hello_truncated = hello_segment\<lparr>seg_data := [104, 101]\<rparr>"

definition hello_corrupted :: ctcp_segment where
  "hello_corrupted = hello_segment\<lparr>seg_data := [104, 101, 108, 108, 110]\<rparr>"

definition late_segment :: ctcp_segment where
  "late_segment = \<lparr>seg_seqno = 2001, seg_ackno = 1, seg_len = 23, seg_cksum = 44148,
                   seg_flags = 0, seg_window = 2000, seg_data = hello\<rparr>"

definition ack_6 :: ctcp_segment where
  "ack_6 = \<lparr>seg_seqno = 1, seg_ackno = 6, seg_len = 18, seg_cksum = 63508,
            seg_flags = 2, seg_window = 2000, seg_data = []\<rparr>"

definition ack_11 :: ctcp_segment where
  "ack_11 = \<lparr>seg_seqno = 1, seg_ackno = 11, seg_len = 18, seg_cksum = 63503,
             seg_flags = 2, seg_window = 2000, seg_data = []\<rparr>"

text \<open>
  A receiver after \<open>hello_segment\<close>, and after \<open>world_segment\<close> as well: the payloads
  are in the sink and acknowledged.
\<close>

definition after_hello :: ctcp_state where
  "after_hello =
     \<lparr>conn = \<lparr>stdin_bytes = [], stdin_eof = False, datagrams = [ack_6],
               stdout_space = 95, stdout_bytes = hello, stdout_eof = False\<rparr>,
      conn_state = \<lparr>seqno = 1, next_seqno = 1, ackno = 6, last_ackno = 1,
                    send_window = 2000, send_window_used = 0,
                    rcv_window = 2000, rcv_window_used = 0\<rparr>,
      tx_state = [], rx_state = [],
      ack_state = \<lparr>time_out_num = 0, counter = 0, timer_overflow = 5, time_out = False\<rparr>,
      segment_teardown = NO_CLOSE\<rparr>"

definition after_world :: ctcp_state where
  "after_world =
     \<lparr>conn = \<lparr>stdin_bytes = [], stdin_eof = False, datagrams = [ack_6, ack_11],
               stdout_space = 90, stdout_bytes = hello @ world, stdout_eof = False\<rparr>,
      conn_state = \<lparr>seqno = 1, next_seqno = 1, ackno = 11, last_ackno = 6,
                    send_window = 2000, send_window_used = 0,
                    rcv_window = 2000, rcv_window_used = 0\<rparr>,
      tx_state = [], rx_state = [],
      ack_state = \<lparr>time_out_num = 0, counter = 0, timer_overflow = 5, time_out = False\<rparr>,
      segment_teardown = NO_CLOSE\<rparr>"

text \<open>
  A receiver whose window is full: two payloads of 1000 bytes wait in the Receive Queue
  and the sink has room for one and a half of them.
\<close>

definition full_receiver :: ctcp_state where
  "full_receiver =
     \<lparr>conn = idle_conn 1500,
      conn_state = \<lparr>seqno = 1, next_seqno = 1, ackno = 2001, last_ackno = 1001,
                    send_window = 2000, send_window_used = 0,
                    rcv_window = 2000, rcv_window_used = 2000\<rparr>,
      tx_state = [],
      rx_state = [\<lparr>byte_used = 0, byte_left = 1000, rx_buffer = replicate 1000 97\<rparr>,
                  \<lparr>byte_used = 0, byte_left = 1000, rx_buffer = replicate 1000 98\<rparr>],
      ack_state = \<lparr>time_out_num = 0, counter = 0, timer_overflow = 5, time_out = False\<rparr>,
      segment_teardown = NO_CLOSE\<rparr>"

text \<open>A FIN as \<^verbatim>\<open>ctcp_send_flags\<close> builds it for a peer that has acknowledged nothing.\<close>

definition fin_1 :: ctcp_segment where
  "fin_1 = \<lparr>seg_seqno = 1, seg_ackno = 1, seg_len = 18, seg_cksum = 63514,
            seg_flags = 1, seg_window = 2000, seg_data = []\<rparr>"

text \<open>The source of the spec's first scenario: the five bytes of "hello", then end-of-source.\<close>

definition hello_then_eof :: conn_t where
  "hello_then_eof = (idle_conn 100)\<lparr>stdin_bytes := hello, stdin_eof := True\<rparr>"

text \<open>The sender above when its source has reached end-of-source.\<close>

definition sender_at_eof :: ctcp_state where
  "sender_at_eof = sender_state\<lparr>conn := (idle_conn 0)\<lparr>stdin_eof := True\<rparr>\<rparr>"

text \<open>
  The sender above one tick before its sixth consecutive timeout, with the configured
  \<^verbatim>\<open>timer_overflow\<close> of 5 and with a \<^verbatim>\<open>timer_overflow\<close> of 1.
\<close>

definition fifth_timeout :: ctcp_state where
  "fifth_timeout = sender_state
     \<lparr>ack_state := \<lparr>time_out_num = 5, counter = 4, timer_overflow = 5, time_out = True\<rparr>\<rparr>"

definition fifth_timeout_fast :: ctcp_state where
  "fifth_timeout_fast = sender_state
     \<lparr>ack_state := \<lparr>time_out_num = 5, counter = 0, timer_overflow = 1, time_out = True\<rparr>\<rparr>"

text \<open>A source that holds "hello" and has not ended.\<close>

definition hello_source :: conn_t where
  "hello_source = (idle_conn 100)\<lparr>stdin_bytes := hello\<rparr>"

section \<open>Auxiliary facts\<close>

subsection \<open>Evaluating the model on concrete input\<close>

text \<open>
  One's-complement addition is unfolded on numerals only, so that the simplifier computes
  a checksum once the bytes are known and leaves it alone before.
\<close>

lemma oc_add_numerals:
  "oc_add 0 y = y"
  "oc_add x 0 = x"
  "oc_add 1 1 = 2"
  "oc_add 1 (numeral b) = of_nat ((1 + unat (numeral b :: 16 word)) mod 65536
                                  + (1 + unat (numeral b :: 16 word)) div 65536)"
  "oc_add (numeral a) 1 = of_nat ((unat (numeral a :: 16 word) + 1) mod 65536
                                  + (unat (numeral a :: 16 word) + 1) div 65536)"
  "oc_add (numeral a) (numeral b)
     = of_nat ((unat (numeral a :: 16 word) + unat (numeral b :: 16 word)) mod 65536
               + (unat (numeral a :: 16 word) + unat (numeral b :: 16 word)) div 65536)"
proof -
  have "unat y < 65536" by (rule order_less_le_trans [OF unsigned_less]) simp
  then show "oc_add 0 y = y" by (simp add: oc_add_def)
  have "unat x < 65536" by (rule order_less_le_trans [OF unsigned_less]) simp
  then show "oc_add x 0 = x" by (simp add: oc_add_def)
qed (simp_all add: oc_add_def Let_def)

lemmas wire_defs = cksum_def wire_bytes_def be32_def be16_def oc_add_numerals

lemmas engine_defs = ctcp_receive_def segment_type_def ctcp_receive_data_segment_def
  ctcp_output_def ctcp_send_flags_def send_segment_def conn_output_def conn_bufspace_def
  advertised_window_def c_div_def c_mod_def MAX_SEG_DATA_SIZE_def sizeof_ctcp_segment_def
  FIN_def ACK_def ctcp_init_def ex_cfg_def idle_conn_def Let_def

subsection \<open>The cumulative-acknowledgement loop\<close>

lemma ack_loop_frame:
  "ackno (snd (ack_loop A tx cs)) = ackno cs"
  "last_ackno (snd (ack_loop A tx cs)) = last_ackno cs"
  "next_seqno (snd (ack_loop A tx cs)) = next_seqno cs"
  "send_window (snd (ack_loop A tx cs)) = send_window cs"
  "rcv_window (snd (ack_loop A tx cs)) = rcv_window cs"
  "rcv_window_used (snd (ack_loop A tx cs)) = rcv_window_used cs"
  by (induction A tx cs rule: ack_loop.induct; simp)+

lemma ack_loop_Cons:
  "ack_loop A (node # nodes) cs =
     (if acked A node
      then ack_loop A nodes
             (cs\<lparr>seqno := segment_next_seqno node,
                 send_window_used := send_window_used cs - word_of_int (buffer_size node)\<rparr>)
      else (node # nodes, cs))"
  by (simp add: acked_def)

lemma ack_loop_queue: "fst (ack_loop A tx cs) = dropWhile (acked A) tx"
  by (induction tx arbitrary: cs) (simp_all add: ack_loop_Cons del: ack_loop.simps(2))

lemma ack_loop_counters:
  "snd (ack_loop A tx cs) =
     cs\<lparr>seqno := (if takeWhile (acked A) tx = [] then seqno cs
                   else segment_next_seqno (last (takeWhile (acked A) tx))),
        send_window_used := send_window_used cs
           - (\<Sum>node\<leftarrow>takeWhile (acked A) tx. word_of_int (buffer_size node))\<rparr>"
  by (induction tx arbitrary: cs) (simp_all add: ack_loop_Cons diff_diff_eq del: ack_loop.simps(2))

subsection \<open>What the senders and the delivery loop leave alone\<close>

lemma ctcp_send_flags_frame [simp]:
  "conn_state (ctcp_send_flags state a f) = conn_state state"
  "tx_state (ctcp_send_flags state a f) = tx_state state"
  "rx_state (ctcp_send_flags state a f) = rx_state state"
  "ack_state (ctcp_send_flags state a f) = ack_state state"
  "segment_teardown (ctcp_send_flags state a f) = segment_teardown state"
  by (simp_all add: ctcp_send_flags_def Let_def)

lemma ctcp_send_flags_emits:
  "\<exists>ack. ctcp_send_flags state a f
            = state\<lparr>conn := (conn state)\<lparr>datagrams := datagrams (conn state) @ [ack]\<rparr>\<rparr>
         \<and> seg_seqno ack = seqno (conn_state state) \<and> seg_ackno ack = a
         \<and> seg_flags ack = f \<and> seg_data ack = []"
  unfolding ctcp_send_flags_def send_segment_def Let_def
  by (rule exI, rule conjI, rule refl) simp

lemma ctcp_output_loop_frame:
  "tx_state (snd (ctcp_output_loop nodes state)) = tx_state state"
  "ack_state (snd (ctcp_output_loop nodes state)) = ack_state state"
  "segment_teardown (snd (ctcp_output_loop nodes state)) = segment_teardown state"
  "seqno (conn_state (snd (ctcp_output_loop nodes state))) = seqno (conn_state state)"
  "next_seqno (conn_state (snd (ctcp_output_loop nodes state))) = next_seqno (conn_state state)"
  "ackno (conn_state (snd (ctcp_output_loop nodes state))) = ackno (conn_state state)"
  "last_ackno (conn_state (snd (ctcp_output_loop nodes state))) = last_ackno (conn_state state)"
  "send_window (conn_state (snd (ctcp_output_loop nodes state))) = send_window (conn_state state)"
  "send_window_used (conn_state (snd (ctcp_output_loop nodes state)))
     = send_window_used (conn_state state)"
  "rcv_window (conn_state (snd (ctcp_output_loop nodes state))) = rcv_window (conn_state state)"
  by (induction nodes state rule: ctcp_output_loop.induct; simp add: Let_def)+

lemma ctcp_output_frame:
  "tx_state (ctcp_output state) = tx_state state"
  "ack_state (ctcp_output state) = ack_state state"
  "segment_teardown (ctcp_output state) = segment_teardown state"
  "seqno (conn_state (ctcp_output state)) = seqno (conn_state state)"
  "next_seqno (conn_state (ctcp_output state)) = next_seqno (conn_state state)"
  "ackno (conn_state (ctcp_output state)) = ackno (conn_state state)"
  "last_ackno (conn_state (ctcp_output state)) = last_ackno (conn_state state)"
  "send_window (conn_state (ctcp_output state)) = send_window (conn_state state)"
  "send_window_used (conn_state (ctcp_output state)) = send_window_used (conn_state state)"
  "rcv_window (conn_state (ctcp_output state)) = rcv_window (conn_state state)"
  by (simp_all add: ctcp_output_def Let_def ctcp_output_loop_frame)

subsection \<open>\<^verbatim>\<open>ctcp_receive\<close> in terms of the tests\<close>

lemma ctcp_receive_alt:
  "ctcp_receive state segment len =
     (if duplicate_data state segment
      then Some (Running (ctcp_send_flags state (last_ackno (conn_state state)) ACK))
      else if len \<noteq> unat (seg_len segment) then Some (Running state)
      else if \<not> checksum_ok segment len then Some (Running state)
      else
        (case segment_type segment of
           DATA_SEG \<Rightarrow> Some (ctcp_receive_data_segment state segment len)
         | ACK_SEG \<Rightarrow>
             (if segment_teardown state = PASSIVE_CLOSE then Some (ctcp_destroy state)
              else
                (case tx_state state of
                   [] \<Rightarrow> Some (Running state)
                 | tx_state_node # _ \<Rightarrow>
                     (if seg_ackno segment \<ge> segment_next_seqno tx_state_node
                      then
                        (let r = ack_loop (seg_ackno segment) (tx_state state) (conn_state state);
                             state1 = state\<lparr>tx_state := fst r, conn_state := snd r\<rparr>;
                             state2 =
                               (if seg_ackno segment = next_seqno (conn_state state1)
                                then state1\<lparr>ack_state := (ack_state state1)\<lparr>time_out := False\<rparr>\<rparr>
                                else state1)
                         in Some (Running
                              (state2\<lparr>ack_state := (ack_state state2)
                                        \<lparr>counter := 0, time_out_num := 0\<rparr>\<rparr>)))
                      else Some (Running state))))
         | FIN_WITH_ACK \<Rightarrow>
             (let state1 = state\<lparr>conn_state := (conn_state state)
                                  \<lparr>ackno := seg_seqno segment + 1\<rparr>\<rparr>
              in Some (ctcp_destroy (ctcp_send_flags state1 (ackno (conn_state state1)) ACK)))
         | FIN_WITH_NO_ACK \<Rightarrow> ctcp_receive_fin_with_no_ack state segment))"
  by (simp only: ctcp_receive_def duplicate_data_def checksum_ok_def)

lemma ctcp_receive_data:
  assumes "segment_type segment = DATA_SEG"
  shows "ctcp_receive state segment len =
     Some
       (if duplicate_data state segment
        then Running (ctcp_send_flags state (last_ackno (conn_state state)) ACK)
        else if len = unat (seg_len segment) \<and> checksum_ok segment len
        then
          (if fits_window state len \<and> len < sizeof_ctcp_segment then Crashed (conn state)
           else Running (ctcp_output
             (if fits_window state len
              then state\<lparr>conn_state := (conn_state state)
                    \<lparr>last_ackno := ackno (conn_state state),
                     ackno := seg_seqno segment + ucast (seg_len segment)
                              - of_nat sizeof_ctcp_segment,
                     rcv_window_used := rcv_window_used (conn_state state)
                        + word_of_int (int len - int sizeof_ctcp_segment)\<rparr>,
                  rx_state := rx_state state @ [rx_element segment len]\<rparr>
              else state)))
        else Running state)"
proof -
  have r: "ctcp_receive_data_segment state segment l =
          (if fits_window state l \<and> l < sizeof_ctcp_segment then Crashed (conn state)
           else Running (ctcp_output
             (if fits_window state l
              then state\<lparr>conn_state := (conn_state state)
                    \<lparr>last_ackno := ackno (conn_state state),
                     ackno := seg_seqno segment + ucast (seg_len segment)
                              - of_nat sizeof_ctcp_segment,
                     rcv_window_used := rcv_window_used (conn_state state)
                        + word_of_int (int l - int sizeof_ctcp_segment)\<rparr>,
                  rx_state := rx_state state @ [rx_element segment l]\<rparr>
              else state)))" for l
    by (simp add: ctcp_receive_data_segment_def fits_window_def rx_element_def Let_def)
  from assms show ?thesis
    by (simp only: ctcp_receive_alt r Segment_type.case) simp
qed

lemma replay_is_duplicate:
  assumes "segment_type segment = DATA_SEG" and "accepted state segment len"
    and "seg_seqno segment = ackno (conn_state state)"
    and "sizeof_ctcp_segment < len"
    and "ctcp_receive state segment len = Some (Running state1)"
  shows "duplicate_data state1 segment"
proof -
  from assms(2) have len: "len = unat (seg_len segment)" by (simp add: accepted_def)
  let ?mid = "state\<lparr>conn_state := (conn_state state)
                 \<lparr>last_ackno := ackno (conn_state state),
                  ackno := seg_seqno segment + ucast (seg_len segment)
                           - of_nat sizeof_ctcp_segment,
                  rcv_window_used := rcv_window_used (conn_state state)
                     + word_of_int (int len - int sizeof_ctcp_segment)\<rparr>,
               rx_state := rx_state state @ [rx_element segment len]\<rparr>"
  from assms(2) have "ctcp_receive state segment len = Some (Running (ctcp_output ?mid))"
    using assms(4) by (auto simp: ctcp_receive_data [OF assms(1)] accepted_def)
  with assms(5) have s1: "state1 = ctcp_output ?mid" by simp
  have a: "seg_flags segment AND ACK = 0"
    using assms(1) by (auto simp: segment_type_def split: if_splits)
  have "(ucast (seg_len segment) :: 32 word) \<noteq> of_nat sizeof_ctcp_segment"
  proof
    assume "(ucast (seg_len segment) :: 32 word) = of_nat sizeof_ctcp_segment"
    then have "uint (ucast (seg_len segment) :: 32 word) = uint (of_nat sizeof_ctcp_segment :: 32 word)"
      by simp
    then have "uint (seg_len segment) = int sizeof_ctcp_segment"
      by (simp add: sizeof_ctcp_segment_def uint_up_ucast is_up)
    then have "unat (seg_len segment) = sizeof_ctcp_segment"
      by (simp add: unat_eq_nat_uint)
    with len assms(4) show False by simp
  qed
  then have "seg_seqno segment + ucast (seg_len segment) - of_nat sizeof_ctcp_segment
               \<noteq> seg_seqno segment"
    by (simp add: diff_eq_eq)
  with a assms(3) s1 show ?thesis
    by (simp add: duplicate_data_def ctcp_output_frame)
qed

text \<open>
  A DATA segment shorter than a header that gets through the tests: \<^verbatim>\<open>data_seg_len\<close>
  is negative and the copy of the payload crashes the engine.
\<close>

lemma short_data_segment_crashes:
  assumes "segment_type segment = DATA_SEG" and "accepted state segment len"
    and "len < sizeof_ctcp_segment"
  shows "ctcp_receive state segment len = Some (Crashed (conn state))"
  using assms(2,3) by (auto simp: ctcp_receive_data [OF assms(1)] accepted_def)

lemma short_segment_crashes:
  "accepted (ctcp_init (idle_conn 0) ex_cfg) short_segment 17
   \<and> ctcp_receive (ctcp_init (idle_conn 0) ex_cfg) short_segment 17
       = Some (Crashed (idle_conn 0))"
  by (simp add: accepted_def duplicate_data_def checksum_ok_def fits_window_def engine_defs
      wire_defs short_segment_def)

subsection \<open>The empty loops\<close>

lemma busy_wait_empty: "busy_wait 0 = Some ()"
  by (simp add: busy_wait.simps)

lemma busy_wait_returns:
  assumes "busy_wait n = Some y"
  shows "n = 0"
  using assms
  by (rule busy_wait.raw_induct [rotated, where P = "\<lambda>n _. n = 0"]) (auto split: if_splits)

lemma busy_wait_spins: "0 < n \<Longrightarrow> busy_wait n = None"
  using busy_wait_returns [of n] by (cases "busy_wait n") auto

lemma ctcp_read_loop_eof_spins:
  assumes "stdin_bytes (conn state) = []" and "stdin_eof (conn state)"
    and "rx_state state \<noteq> [] \<or> tx_state state \<noteq> []"
  shows "ctcp_read_loop state = None"
  using assms
  by (subst ctcp_read_loop.simps)
     (auto simp: conn_input_def Let_def busy_wait_spins split: option.splits)

subsection \<open>Every sender writes a checksum that verifies\<close>

lemma length_wire_bytes:
  "length (wire_bytes seg) = sizeof_ctcp_segment + length (seg_data seg)"
  by (simp add: wire_bytes_def be32_def be16_def sizeof_ctcp_segment_def)

lemma emits_verified_refl [simp]: "emits_verified c c"
  by (simp add: emits_verified_def)

lemma emits_verified_same_datagrams:
  "datagrams c' = datagrams c \<Longrightarrow> emits_verified c c'"
  by (simp add: emits_verified_def)

lemma emits_verified_trans:
  "emits_verified a b \<Longrightarrow> emits_verified b c \<Longrightarrow> emits_verified a c"
  by (auto simp: emits_verified_def)

lemma emits_verified_send:
  "cksum_verifies seg \<Longrightarrow> emits_verified c (send_segment c seg)"
  by (simp add: emits_verified_def send_segment_def)

lemma ctcp_send_flags_verified:
  "emits_verified (conn state) (conn (ctcp_send_flags state a f))"
  unfolding ctcp_send_flags_def Let_def
  by (simp add: emits_verified_send cksum_verifies_def length_wire_bytes)

lemma ctcp_send_data_segment_verified:
  assumes "0 \<le> buffer_size node"
  shows "emits_verified (conn state) (conn (fst (ctcp_send_data_segment state node)))"
proof -
  have "nat (int sizeof_ctcp_segment + buffer_size node)
          = sizeof_ctcp_segment + nat (buffer_size node)"
    using assms by (simp add: nat_add_distrib)
  then show ?thesis
    unfolding ctcp_send_data_segment_def Let_def
    by (simp add: emits_verified_send cksum_verifies_def length_wire_bytes)
qed

lemma ctcp_send_data_segment_sizes:
  "buffer_size (snd (ctcp_send_data_segment state node)) = buffer_size node"
  "tx_buffer (snd (ctcp_send_data_segment state node)) = tx_buffer node"
  by (simp_all add: ctcp_send_data_segment_def Let_def)

lemma send_window_loop_verified:
  "list_all (\<lambda>node. 0 \<le> buffer_size node) nodes
   \<Longrightarrow> emits_verified (conn state) (conn (snd (send_window_loop nodes state)))"
proof (induction nodes arbitrary: state)
  case Nil
  then show ?case by simp
next
  case (Cons node nodes)
  let ?state1 = "fst (ctcp_send_data_segment state node)"
  let ?state2 = "?state1\<lparr>conn_state := (conn_state ?state1)
                    \<lparr>send_window_used := send_window_used (conn_state ?state1)
                                          + word_of_int (buffer_size node)\<rparr>\<rparr>"
  from Cons.prems have "emits_verified (conn state) (conn ?state2)"
    by (simp add: ctcp_send_data_segment_verified)
  moreover from Cons.prems
  have "emits_verified (conn ?state2) (conn (snd (send_window_loop nodes ?state2)))"
    by (intro Cons.IH) simp
  ultimately show ?case
    by (auto simp: Let_def intro: emits_verified_trans)
qed

lemma send_window_loop_sizes:
  "map buffer_size (fst (send_window_loop nodes state)) = map buffer_size nodes"
  by (induction nodes arbitrary: state) (simp_all add: Let_def ctcp_send_data_segment_sizes)

lemma list_all_sizes:
  "map buffer_size xs = map buffer_size ys
   \<Longrightarrow> list_all (\<lambda>node. P (buffer_size node)) xs = list_all (\<lambda>node. P (buffer_size node)) ys"
proof -
  assume "map buffer_size xs = map buffer_size ys"
  then have "list_all P (map buffer_size xs) = list_all P (map buffer_size ys)" by simp
  then show ?thesis by (simp add: list_all_iff)
qed

lemma ctcp_send_possible_data_segment_sizes:
  "map buffer_size (tx_state (ctcp_send_possible_data_segment state))
     = map buffer_size (tx_state state)"
  by (simp add: ctcp_send_possible_data_segment_def Let_def send_window_loop_sizes)

lemma ctcp_send_possible_data_segment_verified:
  assumes "list_all (\<lambda>node. 0 \<le> buffer_size node) (tx_state state)"
  shows "emits_verified (conn state) (conn (ctcp_send_possible_data_segment state))"
  using send_window_loop_verified [OF assms,
      of "state\<lparr>conn_state := (conn_state state)
            \<lparr>send_window_used := 0, next_seqno := seqno (conn_state state)\<rparr>\<rparr>"]
  by (simp add: ctcp_send_possible_data_segment_def Let_def)

lemma conn_output_datagrams:
  "datagrams (snd (conn_output c buf n)) = datagrams c"
  by (simp add: conn_output_def Let_def)

lemma ctcp_output_loop_verified:
  "emits_verified (conn state) (conn (snd (ctcp_output_loop nodes state)))"
proof (induction nodes arbitrary: state)
  case Nil
  then show ?case by simp
next
  case (Cons node nodes)
  show ?case
    by (auto simp: Let_def emits_verified_same_datagrams conn_output_datagrams
        intro!: emits_verified_trans [OF _ Cons.IH]
                emits_verified_trans [OF _ ctcp_send_flags_verified])
qed

lemma ctcp_output_verified:
  "emits_verified (conn state) (conn (ctcp_output state))"
  by (simp add: ctcp_output_def Let_def ctcp_output_loop_verified)


subsection \<open>The read loop, one pass at a time\<close>

lemma ctcp_read_loop_unfold:
  "ctcp_read_loop state =
     (if stdin_bytes (conn state) = []
      then (if stdin_eof (conn state)
            then (if rx_state state = [] \<and> tx_state state = [] then Some (read_eof state)
                  else None)
            else Some state)
      else if read_truncated state
      then Some (state\<lparr>conn := (conn state)
                   \<lparr>stdin_bytes := drop MAX_SEG_DATA_SIZE (stdin_bytes (conn state))\<rparr>\<rparr>)
      else ctcp_read_loop (read_chunk state))"
proof (cases "stdin_bytes (conn state) = []")
  case True
  have b: "busy_wait (length xs) = (if xs = [] then Some () else None)" for xs :: "'a list"
    by (simp add: busy_wait_spins busy_wait_empty)
  from True show ?thesis
    by (subst ctcp_read_loop.simps)
       (simp add: conn_input_def Let_def b busy_wait_empty read_eof_def)
next
  case False
  then have pos: "0 < length (take MAX_SEG_DATA_SIZE (stdin_bytes (conn state)))"
    by (simp add: MAX_SEG_DATA_SIZE_def)
  have t: "take 14 (take MAX_SEG_DATA_SIZE (stdin_bytes (conn state)))
             = take 14 (stdin_bytes (conn state))"
    by (simp add: MAX_SEG_DATA_SIZE_def)
  from False pos show ?thesis
    by (subst ctcp_read_loop.simps)
       (simp add: conn_input_def Let_def read_truncated_def read_chunk_def t
          del: length_take take_take)
qed

lemma ctcp_read_loop_induct [consumes 1, case_names nothing eof truncated chunk]:
  assumes "ctcp_read_loop state = Some state'"
    and "\<And>s. stdin_bytes (conn s) = [] \<Longrightarrow> \<not> stdin_eof (conn s) \<Longrightarrow> P s s"
    and "\<And>s. stdin_bytes (conn s) = [] \<Longrightarrow> stdin_eof (conn s) \<Longrightarrow> rx_state s = []
            \<Longrightarrow> tx_state s = [] \<Longrightarrow> P s (read_eof s)"
    and "\<And>s. stdin_bytes (conn s) \<noteq> [] \<Longrightarrow> read_truncated s
            \<Longrightarrow> P s (s\<lparr>conn := (conn s)
                   \<lparr>stdin_bytes := drop MAX_SEG_DATA_SIZE (stdin_bytes (conn s))\<rparr>\<rparr>)"
    and "\<And>s s'. stdin_bytes (conn s) \<noteq> [] \<Longrightarrow> \<not> read_truncated s
            \<Longrightarrow> ctcp_read_loop (read_chunk s) = Some s' \<Longrightarrow> P (read_chunk s) s' \<Longrightarrow> P s s'"
  shows "P state state'"
  using assms(1)
proof (induction "length (stdin_bytes (conn state))" arbitrary: state rule: less_induct)
  case less
  show ?case
  proof (cases "stdin_bytes (conn state) = []")
    case True
    with less.prems show ?thesis
      by (subst (asm) ctcp_read_loop_unfold) (auto split: if_splits intro: assms(2,3))
  next
    case False
    show ?thesis
    proof (cases "read_truncated state")
      case True
      with False less.prems show ?thesis
        by (subst (asm) ctcp_read_loop_unfold) (auto intro: assms(4))
    next
      case nt: False
      from False nt less.prems have r: "ctcp_read_loop (read_chunk state) = Some state'"
        by (subst (asm) ctcp_read_loop_unfold) simp
      from False have "length (stdin_bytes (conn (read_chunk state)))
                        < length (stdin_bytes (conn state))"
        by (simp add: read_chunk_def MAX_SEG_DATA_SIZE_def)
      then have "P (read_chunk state) state'" using r by (rule less.hyps)
      with False nt r show ?thesis by (rule assms(5))
    qed
  qed
qed

subsection \<open>Every handler builds verified segments only\<close>

lemma ctcp_read_loop_verified:
  assumes "ctcp_read_loop state = Some state'"
  shows "emits_verified (conn state) (conn state')"
  using assms
proof (induction rule: ctcp_read_loop_induct)
  case (eof s)
  have "emits_verified (conn (s\<lparr>segment_teardown := ACTIVE_CLOSE\<rparr>))
          (conn (ctcp_send_flags (s\<lparr>segment_teardown := ACTIVE_CLOSE\<rparr>) (ackno (conn_state s)) FIN))"
    by (rule ctcp_send_flags_verified)
  then show ?case by (simp add: read_eof_def)
next
  case (chunk s s')
  have "emits_verified (conn s) (conn (read_chunk s))"
    by (simp add: emits_verified_same_datagrams read_chunk_def)
  with chunk show ?case by (blast intro: emits_verified_trans)
qed (simp_all add: emits_verified_same_datagrams)

lemma ctcp_read_loop_sizes:
  assumes "ctcp_read_loop state = Some state'"
    and "list_all (\<lambda>node. 0 \<le> buffer_size node) (tx_state state)"
  shows "list_all (\<lambda>node. 0 \<le> buffer_size node) (tx_state state')"
  using assms
  by (induction rule: ctcp_read_loop_induct) (simp_all add: read_eof_def read_chunk_def)

lemma ctcp_read_verified:
  assumes "ctcp_read state = Some state'"
    and "list_all (\<lambda>node. 0 \<le> buffer_size node) (tx_state state)"
  shows "emits_verified (conn state) (conn state')"
proof -
  from assms(1) obtain state1 where l: "ctcp_read_loop state = Some state1"
    and s: "state' = ctcp_send_possible_data_segment state1"
    by (auto simp: ctcp_read_def split: option.splits)
  from l have "emits_verified (conn state) (conn state1)" by (rule ctcp_read_loop_verified)
  moreover from l assms(2) have "list_all (\<lambda>node. 0 \<le> buffer_size node) (tx_state state1)"
    by (rule ctcp_read_loop_sizes)
  then have "emits_verified (conn state1) (conn state')"
    unfolding s by (rule ctcp_send_possible_data_segment_verified)
  ultimately show ?thesis by (rule emits_verified_trans)
qed

lemma ctcp_receive_data_segment_verified:
  "emits_verified (conn state) (outcome_conn (ctcp_receive_data_segment state segment len))"
proof -
  have h: "conn s = conn state \<Longrightarrow> emits_verified (conn state) (conn (ctcp_output s))" for s
    using ctcp_output_verified [of s] by simp
  show ?thesis
    unfolding ctcp_receive_data_segment_def Let_def
    by (simp add: h emits_verified_refl)
qed

lemma ctcp_receive_fin_with_no_ack_verified:
  assumes "ctcp_receive_fin_with_no_ack state segment = Some out"
  shows "emits_verified (conn state) (outcome_conn out)"
proof -
  let ?s1 = "state\<lparr>conn_state := (conn_state state)
                \<lparr>last_ackno := ackno (conn_state state), ackno := seg_seqno segment + 1\<rparr>\<rparr>"
  let ?s2 = "?s1\<lparr>conn := snd (conn_output (conn ?s1) [] 0)\<rparr>"
  let ?s3 = "ctcp_send_flags ?s2 (ackno (conn_state ?s2)) ACK"
  let ?s4 = "ctcp_send_flags ?s3 (ackno (conn_state ?s3)) FIN"
  have a: "emits_verified (conn state) (conn ?s2)"
    by (simp add: emits_verified_same_datagrams conn_output_datagrams)
  have b: "emits_verified (conn ?s2) (conn ?s3)" by (rule ctcp_send_flags_verified)
  have c: "emits_verified (conn ?s3) (conn ?s4)" by (rule ctcp_send_flags_verified)
  have d: "emits_verified (conn state) (conn ?s4)"
    by (rule emits_verified_trans [OF emits_verified_trans [OF a b] c])
  have e: "emits_verified (conn ?s1) (conn (ctcp_send_flags ?s1 (ackno (conn_state ?s1)) ACK))"
    by (rule ctcp_send_flags_verified)
  show ?thesis
  proof (cases "segment_teardown state = ACTIVE_CLOSE")
    case True
    with assms have "out = ctcp_destroy (ctcp_send_flags ?s1 (ackno (conn_state ?s1)) ACK)"
      by (simp add: ctcp_receive_fin_with_no_ack_def Let_def)
    with e show ?thesis by (simp add: ctcp_destroy_def)
  next
    case False
    with assms have "out = Running (?s4\<lparr>ack_state := (ack_state ?s4)\<lparr>time_out := True\<rparr>,
                                          segment_teardown := PASSIVE_CLOSE\<rparr>)"
      by (auto simp: ctcp_receive_fin_with_no_ack_def Let_def split: option.splits)
    with d show ?thesis by simp
  qed
qed

lemma ctcp_receive_verified:
  assumes "ctcp_receive state segment len = Some out"
  shows "emits_verified (conn state) (outcome_conn out)"
proof -
  have f: "emits_verified (conn state)
             (conn (ctcp_send_flags (state\<lparr>conn_state := cs\<rparr>) a fl))" for cs a fl
    using ctcp_send_flags_verified [of "state\<lparr>conn_state := cs\<rparr>" a fl] by simp
  from assms show ?thesis
    by (auto simp: ctcp_receive_alt ctcp_send_flags_verified ctcp_receive_data_segment_verified
        ctcp_destroy_def Let_def f
        intro: ctcp_receive_fin_with_no_ack_verified
        split: if_splits Segment_type.splits list.splits)
qed


lemma ctcp_output_tx_state: "tx_state (ctcp_output state) = tx_state state"
  by (rule ctcp_output_frame)

lemma ctcp_timer_body_sizes:
  "map buffer_size (tx_state (fst (ctcp_timer_body s))) = map buffer_size (tx_state s)"
  by (simp add: ctcp_timer_body_def Let_def ctcp_send_possible_data_segment_sizes
      ctcp_output_tx_state)

lemma ctcp_timer_body_verified:
  assumes "list_all (\<lambda>node. 0 \<le> buffer_size node) (tx_state s)"
  shows "emits_verified (conn s) (conn (fst (ctcp_timer_body s)))"
proof -
  have f: "emits_verified (conn s) (conn (ctcp_send_flags (s\<lparr>ack_state := a\<rparr>) n fl))" for a n fl
    using ctcp_send_flags_verified [of "s\<lparr>ack_state := a\<rparr>" n fl] by simp
  have p: "emits_verified (conn s) (conn (ctcp_send_possible_data_segment (s\<lparr>ack_state := a\<rparr>)))"
    for a
    using ctcp_send_possible_data_segment_verified [of "s\<lparr>ack_state := a\<rparr>"] assms by simp
  have q: "emits_verified (conn s) (conn (ctcp_send_possible_data_segment s))"
    using ctcp_send_possible_data_segment_verified [of s] assms by simp
  have o: "emits_verified (conn s) (conn (ctcp_output (ctcp_send_possible_data_segment s)))"
    by (rule emits_verified_trans [OF q ctcp_output_verified])
  show ?thesis
    by (simp add: ctcp_timer_body_def Let_def f p q o)
qed

lemma ctcp_timer_loop_verified:
  "list_all (\<lambda>s. list_all (\<lambda>node. 0 \<le> buffer_size node) (tx_state s)) state_list
   \<Longrightarrow> list_all2 (\<lambda>s s'. emits_verified (conn s) (conn s'))
         state_list (ctcp_timer_loop state_list)"
proof (induction state_list rule: ctcp_timer_loop.induct)
  case 1
  then show ?case by simp
next
  case (2 cur_state rest)
  let ?cur = "fst (ctcp_timer_body cur_state)"
  from "2.prems" have ok: "list_all (\<lambda>node. 0 \<le> buffer_size node) (tx_state cur_state)"
    and rest: "list_all (\<lambda>s. list_all (\<lambda>node. 0 \<le> buffer_size node) (tx_state s)) rest"
    by simp_all
  from ok have head: "emits_verified (conn cur_state) (conn ?cur)"
    by (rule ctcp_timer_body_verified)
  show ?case
  proof (cases "snd (ctcp_timer_body cur_state)")
    case True
    with "2.IH"(1) rest head show ?thesis
      by (simp add: ctcp_timer_loop.simps(2))
  next
    case False
    from ok have "list_all (\<lambda>node. 0 \<le> buffer_size node) (tx_state ?cur)"
      using list_all_sizes [OF ctcp_timer_body_sizes [of cur_state], of "\<lambda>n. 0 \<le> n"] by simp
    with rest False "2.IH"(2)
    have "list_all2 (\<lambda>s s'. emits_verified (conn s) (conn s'))
            (?cur # rest) (ctcp_timer_loop (?cur # rest))"
      by simp
    then obtain x xs where r: "ctcp_timer_loop (?cur # rest) = x # xs"
      and x: "emits_verified (conn ?cur) (conn x)"
      and xs: "list_all2 (\<lambda>s s'. emits_verified (conn s) (conn s')) rest xs"
      by (auto simp: list_all2_Cons1)
    from head x have "emits_verified (conn cur_state) (conn x)" by (rule emits_verified_trans)
    with False r xs show ?thesis
      by (simp add: ctcp_timer_loop.simps(2))
  qed
qed

lemma ctcp_timer_verified:
  "list_all (\<lambda>s. list_all (\<lambda>node. 0 \<le> buffer_size node) (tx_state s)) state_list
   \<Longrightarrow> list_all2 (\<lambda>s s'. emits_verified (conn s) (conn s')) state_list (ctcp_timer state_list)"
  by (simp add: ctcp_timer_def ctcp_timer_loop_verified)

subsection \<open>Sixteen-bit counters that do not wrap\<close>

lemma uint16_add:
  fixes a :: "16 word"
  assumes "0 \<le> k" and "uint a + k \<le> uint (b :: 16 word)"
  shows "uint (a + word_of_int k) = uint a + k"
proof -
  have "uint b < 65536" using uint_lt2p [of b] by simp
  with assms have "uint a + k < 65536" by simp
  moreover have "0 \<le> uint a + k" using assms by simp
  ultimately show ?thesis
    by (simp add: uint_word_ariths uint_word_of_int mod_add_right_eq)
qed

lemma uint16_sub:
  fixes a :: "16 word"
  assumes "0 \<le> k" and "k \<le> uint a"
  shows "uint (a - word_of_int k) = uint a - k"
proof -
  have "uint a < 65536" using uint_lt2p [of a] by simp
  with assms have "uint a - k < 65536" "0 \<le> uint a - k" by simp_all
  then show ?thesis
    by (simp add: uint_word_ariths uint_word_of_int mod_diff_right_eq)
qed

subsection \<open>The Send Queue bookkeeping through the two loops that touch it\<close>

lemma sent_prefix_untagged:
  "list_all (\<lambda>n. segment_next_seqno n = 0) nodes \<Longrightarrow> sent_prefix 0 base nodes"
  by (cases nodes) simp_all

lemma sent_prefix_append:
  "sent_prefix used base nodes \<Longrightarrow> segment_next_seqno node = 0
   \<Longrightarrow> sent_prefix used base (nodes @ [node])"
  by (induction nodes arbitrary: used base) auto

lemma ack_loop_inv:
  assumes "list_all (\<lambda>node. 0 < buffer_size node) nodes"
    and "sent_prefix (uint (send_window_used cs)) (seqno cs) nodes"
  shows "sent_prefix (uint (send_window_used (snd (ack_loop A nodes cs))))
           (seqno (snd (ack_loop A nodes cs))) (fst (ack_loop A nodes cs))
         \<and> send_window_used (snd (ack_loop A nodes cs)) \<le> send_window_used cs
         \<and> list_all (\<lambda>node. 0 < buffer_size node) (fst (ack_loop A nodes cs))"
  using assms
proof (induction nodes arbitrary: cs)
  case Nil
  then show ?case by simp
next
  case (Cons node nodes)
  show ?case
  proof (cases "acked A node")
    case False
    with Cons.prems show ?thesis by (simp add: ack_loop_Cons del: ack_loop.simps)
  next
    case True
    then have tag: "segment_next_seqno node \<noteq> 0" by (auto simp: acked_def)
    let ?cs = "cs\<lparr>seqno := segment_next_seqno node,
                   send_window_used := send_window_used cs - word_of_int (buffer_size node)\<rparr>"
    from Cons.prems(2) tag have used: "uint (send_window_used cs) \<noteq> 0"
      by (auto split: if_splits)
    with Cons.prems(2) have le: "buffer_size node \<le> uint (send_window_used cs)"
      and rest: "sent_prefix (uint (send_window_used cs) - buffer_size node)
                   (segment_next_seqno node) nodes"
      by auto
    from Cons.prems(1) have pos: "0 < buffer_size node"
      and sizes: "list_all (\<lambda>node. 0 < buffer_size node) nodes"
      by simp_all
    from pos le have u: "uint (send_window_used ?cs) = uint (send_window_used cs) - buffer_size node"
      by (simp add: uint16_sub)
    with rest have "sent_prefix (uint (send_window_used ?cs)) (seqno ?cs) nodes" by simp
    with sizes have "sent_prefix (uint (send_window_used (snd (ack_loop A nodes ?cs))))
           (seqno (snd (ack_loop A nodes ?cs))) (fst (ack_loop A nodes ?cs))
         \<and> send_window_used (snd (ack_loop A nodes ?cs)) \<le> send_window_used ?cs
         \<and> list_all (\<lambda>node. 0 < buffer_size node) (fst (ack_loop A nodes ?cs))"
      by (rule Cons.IH)
    moreover from u pos have "send_window_used ?cs \<le> send_window_used cs"
      by (simp add: word_le_def)
    ultimately show ?thesis using True
      by (auto simp: ack_loop_Cons simp del: ack_loop.simps)
  qed
qed

lemma ctcp_send_data_segment_frame:
  "tx_state (fst (ctcp_send_data_segment state node)) = tx_state state"
  "rx_state (fst (ctcp_send_data_segment state node)) = rx_state state"
  "segment_teardown (fst (ctcp_send_data_segment state node)) = segment_teardown state"
  "conn_state (fst (ctcp_send_data_segment state node))
     = (conn_state state)\<lparr>next_seqno := next_seqno (conn_state state)
                                           + word_of_int (buffer_size node)\<rparr>"
  "snd (ctcp_send_data_segment state node)
     = node\<lparr>segment_next_seqno := next_seqno (conn_state state)
                                     + word_of_int (buffer_size node)\<rparr>"
  by (simp_all add: ctcp_send_data_segment_def Let_def)

lemma send_window_loop_frame:
  "rx_state (snd (send_window_loop nodes state)) = rx_state state"
  "segment_teardown (snd (send_window_loop nodes state)) = segment_teardown state"
  "seqno (conn_state (snd (send_window_loop nodes state))) = seqno (conn_state state)"
  "ackno (conn_state (snd (send_window_loop nodes state))) = ackno (conn_state state)"
  "last_ackno (conn_state (snd (send_window_loop nodes state))) = last_ackno (conn_state state)"
  "send_window (conn_state (snd (send_window_loop nodes state))) = send_window (conn_state state)"
  "rcv_window (conn_state (snd (send_window_loop nodes state))) = rcv_window (conn_state state)"
  "rcv_window_used (conn_state (snd (send_window_loop nodes state)))
     = rcv_window_used (conn_state state)"
  by (induction nodes arbitrary: state; simp add: Let_def ctcp_send_data_segment_frame)+

lemma send_window_loop_inv:
  assumes "list_all (\<lambda>node. 0 < buffer_size node) nodes"
    and "sent_prefix used base nodes" and "0 \<le> used"
    and "used + uint (send_window_used (conn_state state)) \<le> uint (send_window (conn_state state))"
  shows "sent_prefix (uint (send_window_used (conn_state (snd (send_window_loop nodes state))))
                      - uint (send_window_used (conn_state state)))
           (next_seqno (conn_state state)) (fst (send_window_loop nodes state))
         \<and> uint (send_window_used (conn_state state))
             \<le> uint (send_window_used (conn_state (snd (send_window_loop nodes state))))
         \<and> uint (send_window_used (conn_state (snd (send_window_loop nodes state))))
             \<le> uint (send_window (conn_state state))"
  using assms
proof (induction nodes arbitrary: state used base)
  case Nil
  then show ?case by simp
next
  case (Cons node nodes)
  let ?swu = "uint (send_window_used (conn_state state))"
  let ?sw = "uint (send_window (conn_state state))"
  from Cons.prems(1) have pos: "0 < buffer_size node"
    and sizes: "list_all (\<lambda>node. 0 < buffer_size node) nodes"
    by simp_all
  show ?case
  proof (cases "buffer_size node + ?swu > ?sw")
    case True
    have "used = 0"
    proof (rule ccontr)
      assume "used \<noteq> 0"
      with Cons.prems(2) have "buffer_size node \<le> used" by simp
      with True Cons.prems(4) show False by simp
    qed
    with Cons.prems(2) have "list_all (\<lambda>n. segment_next_seqno n = 0) (node # nodes)" by simp
    with True Cons.prems(4) \<open>used = 0\<close> show ?thesis by simp
  next
    case False
    let ?state1 = "fst (ctcp_send_data_segment state node)"
    let ?state2 = "?state1\<lparr>conn_state := (conn_state ?state1)
                      \<lparr>send_window_used := send_window_used (conn_state ?state1)
                                            + word_of_int (buffer_size node)\<rparr>\<rparr>"
    let ?tag = "next_seqno (conn_state state) + word_of_int (buffer_size node)"
    from False pos have u2: "uint (send_window_used (conn_state ?state2)) = ?swu + buffer_size node"
      by (simp add: ctcp_send_data_segment_frame uint16_add [of _ _ "send_window (conn_state state)"])
    have sw2: "send_window (conn_state ?state2) = send_window (conn_state state)"
      and n2: "next_seqno (conn_state ?state2) = ?tag"
      by (simp_all add: ctcp_send_data_segment_frame)
    obtain used' base' where old: "sent_prefix used' base' nodes" and u0: "0 \<le> used'"
      and room: "used' + (?swu + buffer_size node) \<le> ?sw"
    proof (cases "used = 0")
      case True
      with Cons.prems(2) have "sent_prefix 0 base nodes"
        by (simp add: sent_prefix_untagged)
      with False show ?thesis by (intro that [of 0 base]) simp_all
    next
      case nz: False
      with Cons.prems(2) have "buffer_size node \<le> used"
        and "sent_prefix (used - buffer_size node) (segment_next_seqno node) nodes"
        by auto
      with Cons.prems(4) show ?thesis
        by (intro that [of "used - buffer_size node" "segment_next_seqno node"]) simp_all
    qed
    from room have "used' + uint (send_window_used (conn_state ?state2))
                      \<le> uint (send_window (conn_state ?state2))"
      by (simp only: u2 sw2)
    with sizes old u0
    have ih: "sent_prefix (uint (send_window_used (conn_state (snd (send_window_loop nodes ?state2))))
                      - uint (send_window_used (conn_state ?state2)))
           (next_seqno (conn_state ?state2)) (fst (send_window_loop nodes ?state2))
         \<and> uint (send_window_used (conn_state ?state2))
             \<le> uint (send_window_used (conn_state (snd (send_window_loop nodes ?state2))))
         \<and> uint (send_window_used (conn_state (snd (send_window_loop nodes ?state2))))
             \<le> uint (send_window (conn_state ?state2))"
      by (rule Cons.IH)
    have r: "send_window_loop (node # nodes) state
               = (snd (ctcp_send_data_segment state node) # fst (send_window_loop nodes ?state2),
                  snd (send_window_loop nodes ?state2))"
      using False by (simp add: Let_def)
    let ?final = "uint (send_window_used (conn_state (snd (send_window_loop nodes ?state2))))"
    from ih u2 pos have ne: "?final - ?swu \<noteq> 0" and le: "buffer_size node \<le> ?final - ?swu"
      by simp_all
    have e: "?final - uint (send_window_used (conn_state ?state2))
               = ?final - ?swu - buffer_size node"
      by (simp only: u2 diff_diff_eq)
    from ih have "sent_prefix (?final - uint (send_window_used (conn_state ?state2)))
                    (next_seqno (conn_state ?state2)) (fst (send_window_loop nodes ?state2))"
      by (rule conjunct1)
    then have "sent_prefix (?final - ?swu - buffer_size node) ?tag
                    (fst (send_window_loop nodes ?state2))"
      by (simp only: e n2)
    with ne le have "sent_prefix (?final - ?swu) (next_seqno (conn_state state))
                       (snd (ctcp_send_data_segment state node) # fst (send_window_loop nodes ?state2))"
      by (simp add: ctcp_send_data_segment_frame)
    moreover from ih u2 pos have "?swu \<le> ?final" by simp
    moreover from ih have "?final \<le> uint (send_window (conn_state ?state2))" by blast
    then have "?final \<le> ?sw" by (simp only: sw2)
    ultimately show ?thesis by (simp only: r fst_conv snd_conv)
  qed
qed

lemma tx_inv_cong:
  assumes "tx_state s' = tx_state s"
    and "seqno (conn_state s') = seqno (conn_state s)"
    and "send_window_used (conn_state s') = send_window_used (conn_state s)"
    and "send_window (conn_state s') = send_window (conn_state s)"
  shows "tx_inv s' = tx_inv s"
  by (simp add: tx_inv_def assms)

lemma rx_inv_cong:
  assumes "rx_state s' = rx_state s"
    and "rcv_window_used (conn_state s') = rcv_window_used (conn_state s)"
    and "rcv_window (conn_state s') = rcv_window (conn_state s)"
  shows "rx_inv s' = rx_inv s"
  by (simp add: rx_inv_def assms)

lemma ctcp_send_possible_data_segment_frame:
  "rx_state (ctcp_send_possible_data_segment state) = rx_state state"
  "segment_teardown (ctcp_send_possible_data_segment state) = segment_teardown state"
  "seqno (conn_state (ctcp_send_possible_data_segment state)) = seqno (conn_state state)"
  "ackno (conn_state (ctcp_send_possible_data_segment state)) = ackno (conn_state state)"
  "last_ackno (conn_state (ctcp_send_possible_data_segment state))
     = last_ackno (conn_state state)"
  "send_window (conn_state (ctcp_send_possible_data_segment state))
     = send_window (conn_state state)"
  "rcv_window (conn_state (ctcp_send_possible_data_segment state))
     = rcv_window (conn_state state)"
  "rcv_window_used (conn_state (ctcp_send_possible_data_segment state))
     = rcv_window_used (conn_state state)"
  by (simp_all add: ctcp_send_possible_data_segment_def Let_def send_window_loop_frame)

lemma ctcp_send_possible_data_segment_tx_inv:
  assumes "tx_inv state"
  shows "tx_inv (ctcp_send_possible_data_segment state)"
proof -
  let ?state0 = "state\<lparr>conn_state := (conn_state state)
                    \<lparr>send_window_used := 0, next_seqno := seqno (conn_state state)\<rparr>\<rparr>"
  let ?r = "send_window_loop (tx_state state) ?state0"
  from assms have sizes: "list_all (\<lambda>node. 0 < buffer_size node) (tx_state state)"
    and old: "sent_prefix (uint (send_window_used (conn_state state))) (seqno (conn_state state))
                (tx_state state)"
    and room: "uint (send_window_used (conn_state state)) \<le> uint (send_window (conn_state state))"
    by (simp_all add: tx_inv_def word_le_def)
  from room have "uint (send_window_used (conn_state state))
                    + uint (send_window_used (conn_state ?state0))
                  \<le> uint (send_window (conn_state ?state0))"
    by simp
  with sizes old
  have "sent_prefix (uint (send_window_used (conn_state (snd ?r)))
                      - uint (send_window_used (conn_state ?state0)))
           (next_seqno (conn_state ?state0)) (fst ?r)
         \<and> uint (send_window_used (conn_state ?state0))
             \<le> uint (send_window_used (conn_state (snd ?r)))
         \<and> uint (send_window_used (conn_state (snd ?r)))
             \<le> uint (send_window (conn_state ?state0))"
    by (intro send_window_loop_inv) simp_all
  then have p: "sent_prefix (uint (send_window_used (conn_state (snd ?r))))
                  (seqno (conn_state state)) (fst ?r)"
    and le: "uint (send_window_used (conn_state (snd ?r))) \<le> uint (send_window (conn_state state))"
    by simp_all
  have s: "list_all (\<lambda>node. 0 < buffer_size node) (fst ?r)"
    using sizes list_all_sizes [OF send_window_loop_sizes [of "tx_state state" ?state0],
        of "\<lambda>n. 0 < n"]
    by simp
  from p le s show ?thesis
    by (simp add: tx_inv_def ctcp_send_possible_data_segment_def Let_def send_window_loop_frame
        word_le_def)
qed

lemma ctcp_send_possible_data_segment_inv:
  "engine_inv state \<Longrightarrow> engine_inv (ctcp_send_possible_data_segment state)"
  using rx_inv_cong [of "ctcp_send_possible_data_segment state" state]
  by (simp add: engine_inv_def ctcp_send_possible_data_segment_tx_inv
      ctcp_send_possible_data_segment_frame)

subsection \<open>The Receive Queue bookkeeping through delivery and acceptance\<close>

lemma conn_output_count:
  "0 \<le> fst (conn_output c buf n)" "fst (conn_output c buf n) \<le> int n"
  by (simp_all add: conn_output_def Let_def min_le_iff_disj)

lemma ctcp_output_loop_inv:
  assumes "list_all (\<lambda>node. 0 \<le> byte_left node) nodes"
    and "uint (rcv_window_used (conn_state state)) = sum_list (map byte_left nodes)"
  shows "list_all (\<lambda>node. 0 \<le> byte_left node) (fst (ctcp_output_loop nodes state))
         \<and> uint (rcv_window_used (conn_state (snd (ctcp_output_loop nodes state))))
             = sum_list (map byte_left (fst (ctcp_output_loop nodes state)))
         \<and> rcv_window_used (conn_state (snd (ctcp_output_loop nodes state)))
             \<le> rcv_window_used (conn_state state)"
  using assms
proof (induction nodes arbitrary: state)
  case Nil
  then show ?case by simp
next
  case (Cons node nodes)
  show ?case
  proof (cases "conn_bufspace (conn state) = 0 \<or> byte_left node < 0
                \<or> nat (byte_left node) > conn_bufspace (conn state)")
    case True
    with Cons.prems show ?thesis by (simp add: Let_def)
  next
    case False
    let ?w = "conn_output (conn state) (drop (nat (byte_used node)) (rx_buffer node))
                (nat (byte_left node))"
    let ?k = "fst ?w"
    let ?node1 = "node\<lparr>byte_used := byte_used node + ?k, byte_left := byte_left node - ?k\<rparr>"
    let ?state1 = "state\<lparr>conn := snd ?w,
                     conn_state := (conn_state state)
                       \<lparr>rcv_window_used := rcv_window_used (conn_state state) - word_of_int ?k\<rparr>\<rparr>"
    from Cons.prems(1) have left: "0 \<le> byte_left node"
      and lefts: "list_all (\<lambda>node. 0 \<le> byte_left node) nodes" by simp_all
    have k0: "0 \<le> ?k" by (rule conn_output_count)
    have "?k \<le> int (nat (byte_left node))" by (rule conn_output_count)
    with left have k1: "?k \<le> byte_left node" by simp
    have "0 \<le> sum_list (map byte_left nodes)"
      using lefts by (induction nodes) simp_all
    with k1 Cons.prems(2) have "?k \<le> uint (rcv_window_used (conn_state state))" by simp
    with k0 have u: "uint (rcv_window_used (conn_state ?state1))
                       = uint (rcv_window_used (conn_state state)) - ?k"
      by (simp add: uint16_sub)
    with k0 have dec: "rcv_window_used (conn_state ?state1) \<le> rcv_window_used (conn_state state)"
      by (simp add: word_le_def)
    show ?thesis
    proof (cases "byte_left ?node1 \<le> 0")
      case drained: True
      let ?state2 = "ctcp_send_flags ?state1 (ackno (conn_state ?state1)) ACK"
      from drained k1 have "?k = byte_left node" by simp
      with u Cons.prems(2)
      have "uint (rcv_window_used (conn_state ?state2)) = sum_list (map byte_left nodes)"
        by simp
      with lefts
      have "list_all (\<lambda>node. 0 \<le> byte_left node) (fst (ctcp_output_loop nodes ?state2))
         \<and> uint (rcv_window_used (conn_state (snd (ctcp_output_loop nodes ?state2))))
             = sum_list (map byte_left (fst (ctcp_output_loop nodes ?state2)))
         \<and> rcv_window_used (conn_state (snd (ctcp_output_loop nodes ?state2)))
             \<le> rcv_window_used (conn_state ?state2)"
        by (rule Cons.IH)
      moreover have "ctcp_output_loop (node # nodes) state = ctcp_output_loop nodes ?state2"
        using False drained by (simp add: Let_def)
      moreover from dec have "rcv_window_used (conn_state ?state2)
                                \<le> rcv_window_used (conn_state state)"
        by simp
      ultimately show ?thesis by (auto intro: order_trans)
    next
      case short: False
      have "ctcp_output_loop (node # nodes) state = (?node1 # nodes, ?state1)"
        using False short by (simp add: Let_def)
      moreover from short lefts have "list_all (\<lambda>node. 0 \<le> byte_left node) (?node1 # nodes)"
        by simp
      moreover from u Cons.prems(2)
      have "uint (rcv_window_used (conn_state ?state1)) = sum_list (map byte_left (?node1 # nodes))"
        by simp
      ultimately show ?thesis using dec by (simp only: fst_conv snd_conv)
    qed
  qed
qed

lemma ctcp_output_rx_inv:
  assumes "rx_inv state"
  shows "rx_inv (ctcp_output state)"
proof -
  from assms ctcp_output_loop_inv [of "rx_state state" state]
  have "list_all (\<lambda>node. 0 \<le> byte_left node) (fst (ctcp_output_loop (rx_state state) state))
         \<and> uint (rcv_window_used (conn_state (snd (ctcp_output_loop (rx_state state) state))))
             = sum_list (map byte_left (fst (ctcp_output_loop (rx_state state) state)))
         \<and> rcv_window_used (conn_state (snd (ctcp_output_loop (rx_state state) state)))
             \<le> rcv_window_used (conn_state state)"
    by (simp add: rx_inv_def)
  moreover from assms have "rcv_window_used (conn_state state) \<le> rcv_window (conn_state state)"
    by (simp add: rx_inv_def)
  ultimately show ?thesis
    by (auto simp: rx_inv_def ctcp_output_def Let_def ctcp_output_loop_frame intro: order_trans)
qed

lemma ctcp_output_inv:
  "engine_inv state \<Longrightarrow> engine_inv (ctcp_output state)"
  using tx_inv_cong [of "ctcp_output state" state]
  by (simp add: engine_inv_def ctcp_output_rx_inv ctcp_output_frame)

lemma ctcp_receive_data_segment_inv:
  assumes "ctcp_receive_data_segment state segment len = Running state'"
    and "engine_inv state" and "sizeof_ctcp_segment \<le> len"
  shows "engine_inv state'"
proof (cases "fits_window state len")
  case False
  with assms(1) have "state' = ctcp_output state"
    by (simp add: ctcp_receive_data_segment_def Let_def fits_window_def)
  with assms(2) show ?thesis by (simp add: ctcp_output_inv)
next
  case True
  let ?d = "int len - int sizeof_ctcp_segment"
  let ?mid = "state\<lparr>conn_state := (conn_state state)
                 \<lparr>last_ackno := ackno (conn_state state),
                  ackno := seg_seqno segment + ucast (seg_len segment)
                           - of_nat sizeof_ctcp_segment,
                  rcv_window_used := rcv_window_used (conn_state state) + word_of_int ?d\<rparr>,
               rx_state := rx_state state @
                 [\<lparr>byte_used = 0, byte_left = ?d,
                   rx_buffer = take (nat ?d) (seg_data segment)\<rparr>]\<rparr>"
  from assms(3) have d0: "0 \<le> ?d" by simp
  from True have fit: "uint (rcv_window_used (conn_state state)) + ?d
                         \<le> uint (rcv_window (conn_state state))"
    by (simp add: fits_window_def)
  with d0 have u: "uint (rcv_window_used (conn_state state) + word_of_int ?d)
                     = uint (rcv_window_used (conn_state state)) + ?d"
    by (rule uint16_add)
  from assms(2) have "rx_inv state" and tx: "tx_inv state" by (simp_all add: engine_inv_def)
  with u fit d0 have "rx_inv ?mid"
    by (simp add: rx_inv_def word_le_def)
  moreover from tx have "tx_inv ?mid"
    using tx_inv_cong [of ?mid state] by simp
  ultimately have "engine_inv (ctcp_output ?mid)"
    by (intro ctcp_output_inv) (simp add: engine_inv_def)
  moreover from True d0 assms(1) have "state' = ctcp_output ?mid"
    by (simp add: ctcp_receive_data_segment_def Let_def fits_window_def)
  ultimately show ?thesis by simp
qed

subsection \<open>The invariant through each handler\<close>

lemma ctcp_receive_cases:
  "ctcp_receive state segment len =
     (if duplicate_data state segment
      then Some (Running (ctcp_send_flags state (last_ackno (conn_state state)) ACK))
      else if len \<noteq> unat (seg_len segment) \<or> \<not> checksum_ok segment len
      then Some (Running state)
      else
        (case segment_type segment of
           DATA_SEG \<Rightarrow> Some (ctcp_receive_data_segment state segment len)
         | ACK_SEG \<Rightarrow>
             (if segment_teardown state = PASSIVE_CLOSE then Some (Destroyed (conn state))
              else if tx_state state = []
                      \<or> seg_ackno segment < segment_next_seqno (hd (tx_state state))
              then Some (Running state)
              else Some (Running (ack_result state (seg_ackno segment))))
         | FIN_WITH_ACK \<Rightarrow>
             Some (Destroyed (conn (ctcp_send_flags
               (state\<lparr>conn_state := (conn_state state)\<lparr>ackno := seg_seqno segment + 1\<rparr>\<rparr>)
               (seg_seqno segment + 1) ACK)))
         | FIN_WITH_NO_ACK \<Rightarrow> ctcp_receive_fin_with_no_ack state segment))"
  by (auto simp: ctcp_receive_alt Let_def ctcp_destroy_def ack_result_def ack_loop_frame
      not_le split: Segment_type.splits list.splits simp del: ack_loop.simps)

lemma engine_inv_cong:
  assumes "tx_state s' = tx_state s" and "rx_state s' = rx_state s"
    and "seqno (conn_state s') = seqno (conn_state s)"
    and "send_window_used (conn_state s') = send_window_used (conn_state s)"
    and "send_window (conn_state s') = send_window (conn_state s)"
    and "rcv_window_used (conn_state s') = rcv_window_used (conn_state s)"
    and "rcv_window (conn_state s') = rcv_window (conn_state s)"
  shows "engine_inv s' = engine_inv s"
  using tx_inv_cong [of s' s] rx_inv_cong [of s' s] assms by (simp add: engine_inv_def)

lemma engine_inv_init: "engine_inv (ctcp_init c cfg)"
  by (simp add: engine_inv_def tx_inv_def rx_inv_def ctcp_init_def)

lemma read_chunk_inv:
  assumes "engine_inv s" and "stdin_bytes (conn s) \<noteq> []"
  shows "engine_inv (read_chunk s)"
proof -
  from assms(2) have "0 < length (take MAX_SEG_DATA_SIZE (stdin_bytes (conn s)))"
    by (simp add: MAX_SEG_DATA_SIZE_def)
  with assms(1) have "tx_inv (read_chunk s)"
    by (simp add: engine_inv_def tx_inv_def read_chunk_def sent_prefix_append
        del: length_take)
  moreover from assms(1) have "rx_inv (read_chunk s)"
    using rx_inv_cong [of "read_chunk s" s] by (simp add: engine_inv_def read_chunk_def)
  ultimately show ?thesis by (simp add: engine_inv_def)
qed

lemma read_eof_inv: "engine_inv s \<Longrightarrow> engine_inv (read_eof s)"
  using engine_inv_cong [of "read_eof s" s] by (simp add: read_eof_def)

lemma ctcp_read_loop_inv:
  assumes "ctcp_read_loop state = Some state'" and "engine_inv state"
  shows "engine_inv state' \<and> ackno (conn_state state') = ackno (conn_state state)
         \<and> last_ackno (conn_state state') = last_ackno (conn_state state)"
  using assms
proof (induction rule: ctcp_read_loop_induct)
  case (nothing s)
  then show ?case by simp
next
  case (eof s)
  then show ?case by (simp add: read_eof_inv) (simp add: read_eof_def)
next
  case (truncated s)
  let ?s = "s\<lparr>conn := (conn s)\<lparr>stdin_bytes := drop MAX_SEG_DATA_SIZE (stdin_bytes (conn s))\<rparr>\<rparr>"
  from truncated have "engine_inv ?s" using engine_inv_cong [of ?s s] by simp
  then show ?case by simp
next
  case (chunk s s')
  from chunk.prems chunk.hyps(1) have "engine_inv (read_chunk s)" by (rule read_chunk_inv)
  with chunk.IH show ?case by (simp add: read_chunk_def)
qed

lemma ctcp_read_inv:
  assumes "ctcp_read state = Some state'" and "engine_inv state"
  shows "engine_inv state' \<and> ackno (conn_state state') = ackno (conn_state state)
         \<and> last_ackno (conn_state state') = last_ackno (conn_state state)"
proof -
  from assms(1) obtain state1 where l: "ctcp_read_loop state = Some state1"
    and s: "state' = ctcp_send_possible_data_segment state1"
    by (auto simp: ctcp_read_def split: option.splits)
  from l assms(2) have "engine_inv state1 \<and> ackno (conn_state state1) = ackno (conn_state state)
         \<and> last_ackno (conn_state state1) = last_ackno (conn_state state)"
    by (rule ctcp_read_loop_inv)
  then show ?thesis
    by (simp add: s ctcp_send_possible_data_segment_inv ctcp_send_possible_data_segment_frame)
qed

lemma ack_segment_inv:
  assumes "engine_inv state"
  shows "engine_inv (state\<lparr>tx_state := fst (ack_loop A (tx_state state) (conn_state state)),
                           conn_state := snd (ack_loop A (tx_state state) (conn_state state))\<rparr>)"
    (is "engine_inv ?s")
proof -
  from assms have tx: "tx_inv state" and rx: "rx_inv state" by (simp_all add: engine_inv_def)
  from tx ack_loop_inv [of "tx_state state" "conn_state state" A]
  have "sent_prefix (uint (send_window_used (conn_state ?s))) (seqno (conn_state ?s)) (tx_state ?s)
        \<and> send_window_used (conn_state ?s) \<le> send_window_used (conn_state state)
        \<and> list_all (\<lambda>node. 0 < buffer_size node) (tx_state ?s)"
    by (simp add: tx_inv_def)
  moreover from tx have "send_window_used (conn_state state) \<le> send_window (conn_state state)"
    by (simp add: tx_inv_def)
  ultimately have "tx_inv ?s"
    by (auto simp: tx_inv_def ack_loop_frame intro: order_trans)
  moreover from rx have "rx_inv ?s"
    using rx_inv_cong [of ?s state] by (simp add: ack_loop_frame)
  ultimately show ?thesis by (simp add: engine_inv_def)
qed

lemma ctcp_receive_fin_with_no_ack_inv:
  assumes "ctcp_receive_fin_with_no_ack state segment = Some (Running state')"
    and "engine_inv state"
  shows "engine_inv state' \<and> last_ackno (conn_state state') = ackno (conn_state state)
         \<and> ackno (conn_state state') = seg_seqno segment + 1"
proof -
  from assms(1) have s: "state' =
     (ctcp_send_flags
        (ctcp_send_flags
           (state\<lparr>conn_state := (conn_state state)
                     \<lparr>last_ackno := ackno (conn_state state), ackno := seg_seqno segment + 1\<rparr>,
                  conn := snd (conn_output (conn state) [] 0)\<rparr>)
           (seg_seqno segment + 1) ACK)
        (seg_seqno segment + 1) FIN)
       \<lparr>ack_state := (ack_state state)\<lparr>time_out := True\<rparr>, segment_teardown := PASSIVE_CLOSE\<rparr>"
    by (auto simp: ctcp_receive_fin_with_no_ack_def Let_def ctcp_destroy_def
        split: if_splits option.splits)
  from assms(2) show ?thesis
    using engine_inv_cong [of state' state] by (simp add: s)
qed

lemma ack_result_inv:
  assumes "engine_inv state"
  shows "engine_inv (ack_result state A)"
proof -
  let ?s = "state\<lparr>tx_state := fst (ack_loop A (tx_state state) (conn_state state)),
                  conn_state := snd (ack_loop A (tx_state state) (conn_state state))\<rparr>"
  from assms have "engine_inv ?s" by (rule ack_segment_inv)
  then show ?thesis
    using engine_inv_cong [of "ack_result state A" ?s] by (simp add: ack_result_def)
qed

lemma ack_result_frame:
  "ackno (conn_state (ack_result state A)) = ackno (conn_state state)"
  "last_ackno (conn_state (ack_result state A)) = last_ackno (conn_state state)"
  by (simp_all add: ack_result_def ack_loop_frame)

lemma ctcp_receive_inv:
  assumes "ctcp_receive state segment len = Some (Running state')"
    and "engine_inv state" and "sizeof_ctcp_segment \<le> len"
  shows "engine_inv state'"
proof -
  have d: "engine_inv (ctcp_send_flags state (last_ackno (conn_state state)) ACK)"
    using assms(2)
      engine_inv_cong [of "ctcp_send_flags state (last_ackno (conn_state state)) ACK" state]
    by simp
  have f: "ctcp_receive_fin_with_no_ack state segment = Some (Running state')
           \<Longrightarrow> engine_inv state'"
    using assms(2) by (simp add: ctcp_receive_fin_with_no_ack_inv)
  from assms show ?thesis
    by (auto simp: ctcp_receive_cases d f ack_result_inv
        intro: ctcp_receive_data_segment_inv
        split: if_splits Segment_type.splits)
qed

lemma in_order_data:
  fixes a :: "32 word" and l :: "16 word"
  assumes "18 \<le> uint l" and "uint a + uint l < 2 ^ 32"
  shows "a \<le> a + ucast l - 18"
proof -
  have ul: "uint (ucast l :: 32 word) = uint l" by (simp add: uint_up_ucast is_up)
  with assms(1) have "uint (18 :: 32 word) \<le> uint (ucast l :: 32 word)" by simp
  then have "uint (ucast l - 18 :: 32 word) = uint (ucast l :: 32 word) - uint (18 :: 32 word)"
    by (simp only: uint_sub_lem)
  with ul have d: "uint (ucast l - 18 :: 32 word) = uint l - 18" by simp
  with assms(2) have "uint a + uint (ucast l - 18 :: 32 word) < 2 ^ 32" by simp
  then have "a \<le> a + (ucast l - 18)"
    by (simp add: no_plus_overflow_uint_size word_size)
  then show ?thesis by (simp add: add_diff_eq)
qed

lemma in_order_fin:
  fixes a :: "32 word"
  assumes "uint a + 1 < 2 ^ 32"
  shows "a \<le> a + 1"
proof -
  from assms have "uint a + uint (1 :: 32 word) < 2 ^ 32" by simp
  then show ?thesis by (simp add: no_plus_overflow_uint_size word_size)
qed

lemma ctcp_receive_ackno:
  assumes "ctcp_receive state segment len = Some (Running state')"
    and "sizeof_ctcp_segment \<le> len" and "in_order state segment len"
    and "last_ackno (conn_state state) \<le> ackno (conn_state state)"
  shows "ackno (conn_state state) \<le> ackno (conn_state state')
         \<and> last_ackno (conn_state state') \<le> ackno (conn_state state')"
proof -
  from assms(3) have nd: "\<not> duplicate_data state segment"
    and seq: "seg_seqno segment = ackno (conn_state state)"
    and room: "uint (ackno (conn_state state)) + int len < 2 ^ 32"
    by (simp_all add: in_order_def duplicate_data_def)
  show ?thesis
  proof (cases "len \<noteq> unat (seg_len segment) \<or> \<not> checksum_ok segment len")
    case True
    with nd assms(1,4) show ?thesis by (simp add: ctcp_receive_cases)
  next
    case False
    then have len: "len = unat (seg_len segment)" by simp
    show ?thesis
    proof (cases "segment_type segment")
      case DATA_SEG
      from assms(2) have "18 \<le> unat (seg_len segment)"
        by (simp add: len [symmetric] sizeof_ctcp_segment_def)
      then have "int 18 \<le> int (unat (seg_len segment))" by (simp only: of_nat_le_iff)
      then have "18 \<le> uint (seg_len segment)" by simp
      moreover from room have "uint (ackno (conn_state state)) + uint (seg_len segment) < 2 ^ 32"
        unfolding len by simp
      ultimately have adv: "ackno (conn_state state)
              \<le> ackno (conn_state state) + ucast (seg_len segment) - 18"
        by (rule in_order_data)
      from DATA_SEG nd False assms(1)
      have "ctcp_receive_data_segment state segment len = Running state'"
        by (simp add: ctcp_receive_cases)
      with assms(2) have "state' = ctcp_output state \<or> state' = ctcp_output
          (state\<lparr>conn_state := (conn_state state)
                    \<lparr>last_ackno := ackno (conn_state state),
                     ackno := seg_seqno segment + ucast (seg_len segment)
                              - of_nat sizeof_ctcp_segment,
                     rcv_window_used := rcv_window_used (conn_state state)
                        + word_of_int (int len - int sizeof_ctcp_segment)\<rparr>,
                  rx_state := rx_state state @ [rx_element segment len]\<rparr>)"
        by (auto simp: ctcp_receive_data_segment_def Let_def rx_element_def split: if_splits)
      with adv assms(4) show ?thesis
        by (auto simp: ctcp_output_frame seq sizeof_ctcp_segment_def)
    next
      case ACK_SEG
      with nd False assms(1,4) show ?thesis
        by (auto simp: ctcp_receive_cases ack_result_frame split: if_splits)
    next
      case FIN_WITH_ACK
      with nd False assms(1) show ?thesis
        by (simp add: ctcp_receive_cases)
    next
      case FIN_WITH_NO_ACK
      with nd False assms(1)
      have "ctcp_receive_fin_with_no_ack state segment = Some (Running state')"
        by (simp add: ctcp_receive_cases)
      then have s: "last_ackno (conn_state state') = ackno (conn_state state)
                    \<and> ackno (conn_state state') = seg_seqno segment + 1"
        by (auto simp: ctcp_receive_fin_with_no_ack_def Let_def ctcp_destroy_def
            split: if_splits option.splits)
      from assms(2) room have "uint (ackno (conn_state state)) + 1 < 2 ^ 32"
        by (simp add: sizeof_ctcp_segment_def)
      then have "ackno (conn_state state) \<le> ackno (conn_state state) + 1"
        by (rule in_order_fin)
      with s seq show ?thesis by simp
    qed
  qed
qed

lemma engine_inv_update:
  "engine_inv (s\<lparr>ack_state := a\<rparr>) = engine_inv s"
  "engine_inv (s\<lparr>segment_teardown := t\<rparr>) = engine_inv s"
  "engine_inv (s\<lparr>conn := c\<rparr>) = engine_inv s"
  "engine_inv (ctcp_send_flags s n f) = engine_inv s"
  using engine_inv_cong [of "s\<lparr>ack_state := a\<rparr>" s]
    engine_inv_cong [of "s\<lparr>segment_teardown := t\<rparr>" s]
    engine_inv_cong [of "s\<lparr>conn := c\<rparr>" s]
    engine_inv_cong [of "ctcp_send_flags s n f" s]
  by simp_all

lemma ctcp_timer_body_inv:
  assumes "engine_inv s"
  shows "engine_inv (fst (ctcp_timer_body s))"
  using assms
  by (simp add: ctcp_timer_body_def Let_def ctcp_send_possible_data_segment_inv ctcp_output_inv
      engine_inv_update)

lemma ctcp_timer_body_ackno:
  "ackno (conn_state (fst (ctcp_timer_body s))) = ackno (conn_state s)"
  "last_ackno (conn_state (fst (ctcp_timer_body s))) = last_ackno (conn_state s)"
  by (simp_all add: ctcp_timer_body_def Let_def ctcp_send_possible_data_segment_frame
      ctcp_output_frame)

lemma ctcp_timer_loop_inv:
  "list_all engine_inv state_list
   \<Longrightarrow> list_all engine_inv (ctcp_timer_loop state_list)
       \<and> map (\<lambda>s. ackno (conn_state s)) (ctcp_timer_loop state_list)
           = map (\<lambda>s. ackno (conn_state s)) state_list
       \<and> map (\<lambda>s. last_ackno (conn_state s)) (ctcp_timer_loop state_list)
           = map (\<lambda>s. last_ackno (conn_state s)) state_list"
proof (induction state_list rule: ctcp_timer_loop.induct)
  case 1
  then show ?case by simp
next
  case (2 cur_state rest)
  from "2.prems" have cur: "engine_inv (fst (ctcp_timer_body cur_state))"
    and rest: "list_all engine_inv rest"
    by (simp_all add: ctcp_timer_body_inv)
  show ?case
  proof (cases "snd (ctcp_timer_body cur_state)")
    case True
    with "2.IH"(1) cur rest show ?thesis
      by (simp add: ctcp_timer_loop.simps(2) ctcp_timer_body_ackno)
  next
    case False
    with "2.IH"(2) cur rest show ?thesis
      by (simp add: ctcp_timer_loop.simps(2) ctcp_timer_body_ackno)
  qed
qed

lemma ctcp_timer_inv:
  "list_all engine_inv state_list
   \<Longrightarrow> list_all engine_inv (ctcp_timer state_list)
       \<and> map (\<lambda>s. ackno (conn_state s)) (ctcp_timer state_list)
           = map (\<lambda>s. ackno (conn_state s)) state_list
       \<and> map (\<lambda>s. last_ackno (conn_state s)) (ctcp_timer state_list)
           = map (\<lambda>s. last_ackno (conn_state s)) state_list"
  by (simp add: ctcp_timer_def ctcp_timer_loop_inv)

subsection \<open>The concrete receivers are reachable\<close>

lemma hello_accepted:
  "ctcp_receive (ctcp_init (idle_conn 100) ex_cfg) hello_segment 23 = Some (Running after_hello)"
  by (simp add: engine_defs wire_defs hello_segment_def hello_def after_hello_def ack_6_def)

lemma world_accepted:
  "ctcp_receive after_hello world_segment 23 = Some (Running after_world)"
  by (simp add: engine_defs wire_defs world_segment_def hello_def world_def after_hello_def
      after_world_def ack_6_def ack_11_def)

lemma full_receiver_delivers:
  "ctcp_output full_receiver = full_receiver
     \<lparr>conn := (idle_conn 500)
         \<lparr>datagrams := [ack_2001\<lparr>seg_window := 1000, seg_cksum := 62513\<rparr>],
          stdout_bytes := replicate 1000 97\<rparr>,
      conn_state := (conn_state full_receiver)\<lparr>rcv_window_used := 1000\<rparr>,
      rx_state := [\<lparr>byte_used = 0, byte_left = 1000, rx_buffer = replicate 1000 98\<rparr>]\<rparr>"
  by (simp add: engine_defs wire_defs full_receiver_def ack_2001_def)

lemma hello_sent:
  "ctcp_read (ctcp_init hello_source ex_cfg)
     = Some ((ctcp_init hello_source ex_cfg)
         \<lparr>conn := (idle_conn 100)\<lparr>datagrams := [hello_segment]\<rparr>,
          conn_state := (conn_state (ctcp_init hello_source ex_cfg))
                          \<lparr>next_seqno := 6, send_window_used := 5\<rparr>,
          tx_state := [\<lparr>segment_next_seqno = 6, buffer_size = 5, tx_buffer = hello\<rparr>],
          ack_state := (ack_state (ctcp_init hello_source ex_cfg))\<lparr>time_out := True\<rparr>\<rparr>)"
proof -
  let ?s = "ctcp_init hello_source ex_cfg"
  have c: "read_chunk ?s = (ctcp_init (idle_conn 100) ex_cfg)
              \<lparr>tx_state := [\<lparr>segment_next_seqno = 0, buffer_size = 5, tx_buffer = hello\<rparr>]\<rparr>"
    by (simp add: read_chunk_def hello_source_def ctcp_init_def idle_conn_def hello_def
        MAX_SEG_DATA_SIZE_def)
  have "ctcp_read_loop ?s = ctcp_read_loop (read_chunk ?s)"
    by (subst ctcp_read_loop_unfold)
       (simp add: read_truncated_def hello_source_def ctcp_init_def idle_conn_def hello_def
          MAX_SEG_DATA_SIZE_def)
  also have "\<dots> = Some (read_chunk ?s)"
    by (subst ctcp_read_loop_unfold) (simp add: c, simp add: ctcp_init_def idle_conn_def)
  finally have "ctcp_read_loop (ctcp_init hello_source ex_cfg)
          = Some ((ctcp_init (idle_conn 100) ex_cfg)
              \<lparr>tx_state := [\<lparr>segment_next_seqno = 0, buffer_size = 5, tx_buffer = hello\<rparr>]\<rparr>)"
    by (simp add: c)
  then show ?thesis
    by (simp add: ctcp_read_def ctcp_send_possible_data_segment_def ctcp_send_data_segment_def
        engine_defs wire_defs hello_source_def hello_segment_def hello_def)
qed

subsection \<open>The segments the handlers build, and the send loop on them\<close>

text \<open>
  Whatever \<^verbatim>\<open>ctcp_read\<close>, \<^verbatim>\<open>ctcp_receive\<close>, \<^verbatim>\<open>ctcp_output\<close> and \<^verbatim>\<open>ctcp_timer\<close> build and
  run the send loop on carries a checksum that verifies, when no Send Queue element has a
  negative \<^verbatim>\<open>buffer_size\<close>.
\<close>

lemma handlers_build_verified_segments:
  assumes "list_all (\<lambda>node. 0 \<le> buffer_size node) (tx_state state)"
    and "list_all (\<lambda>s. list_all (\<lambda>node. 0 \<le> buffer_size node) (tx_state s)) state_list"
  shows "(\<forall>state'. ctcp_read state = Some state' \<longrightarrow> emits_verified (conn state) (conn state'))
       \<and> (\<forall>out. ctcp_receive state segment len = Some out
                  \<longrightarrow> emits_verified (conn state) (outcome_conn out))
       \<and> emits_verified (conn state) (conn (ctcp_output state))
       \<and> list_all2 (\<lambda>s s'. emits_verified (conn s) (conn s')) state_list (ctcp_timer state_list)"
  using assms
  by (auto intro: ctcp_read_verified ctcp_receive_verified ctcp_output_verified
      ctcp_timer_verified)

lemma send_retry_loop_done:
  "send_retry_loop caps memory n 0 = []"
  by (cases caps) simp_all

text \<open>A carrier that takes all it is offered in the first call gets the segment.\<close>

lemma send_retry_loop_whole:
  "0 < n \<Longrightarrow> send_retry_loop [] memory n n = [take n memory]"
  "0 < n \<Longrightarrow> n \<le> cap \<Longrightarrow> send_retry_loop (cap # caps) memory n n = [take n memory]"
  by (simp_all add: conn_send_def min_absorb1 send_retry_loop_done)

lemma be16_inj:
  assumes "be16 x = be16 y"
  shows "x = y"
proof (rule bit_word_eqI)
  fix n
  assume n: "n < LENGTH(16)"
  from assms have hi: "(ucast (drop_bit 8 x) :: byte) = ucast (drop_bit 8 y)"
    and lo: "(ucast x :: byte) = ucast y"
    by (simp_all add: be16_def)
  show "bit x n = bit y n"
  proof (cases "n < 8")
    case True
    from lo have "bit (ucast x :: byte) n = bit (ucast y :: byte) n" by simp
    with True show ?thesis by (simp add: bit_simps)
  next
    case False
    with n have m: "n - 8 < 8" and e: "8 + (n - 8) = n" by simp_all
    from hi have "bit (ucast (drop_bit 8 x) :: byte) (n - 8)
                  = bit (ucast (drop_bit 8 y) :: byte) (n - 8)"
      by simp
    with m e show ?thesis by (simp add: bit_simps)
  qed
qed

lemma bytes_verify_wire:
  "bytes_verify (wire_bytes seg) = cksum_verifies seg"
proof -
  have l: "length (be32 w) = 4" "length (be16 v) = 2" for w v
    by (simp_all add: be32_def be16_def)
  have z: "be16 0 = [0, 0]" by (simp add: be16_def)
  have a: "take 10 (wire_bytes seg)
             = be32 (seg_seqno seg) @ be32 (seg_ackno seg) @ be16 (seg_len seg)"
    by (simp add: wire_bytes_def l)
  have b: "drop 12 (wire_bytes seg)
             = be32 (seg_flags seg) @ be16 (seg_window seg) @ seg_data seg"
    by (simp add: wire_bytes_def l)
  have c: "take 2 (drop 10 (wire_bytes seg)) = be16 (seg_cksum seg)"
    by (simp add: wire_bytes_def l)
  have d: "wire_bytes (seg\<lparr>seg_cksum := 0\<rparr>)
             = take 10 (wire_bytes seg) @ [0, 0] @ drop 12 (wire_bytes seg)"
    unfolding a b by (simp add: wire_bytes_def z)
  have e: "sizeof_ctcp_segment \<le> length (wire_bytes seg)"
    by (simp add: wire_bytes_def l sizeof_ctcp_segment_def)
  show ?thesis
    unfolding bytes_verify_def cksum_verifies_def c d [symmetric]
    using e be16_inj by auto
qed

text \<open>
  So the claim about the bytes on the wire holds for a segment whose checksum verifies
  when the carrier takes it whole.
\<close>

lemma whole_send_verifies:
  assumes "cksum_verifies seg"
  shows "send_retry_loop [] (wire_bytes seg @ beyond) (length (wire_bytes seg))
           (length (wire_bytes seg)) = [wire_bytes seg]
         \<and> bytes_verify (wire_bytes seg)"
proof -
  have "0 < length (wire_bytes seg)" by (simp add: wire_bytes_def be32_def)
  with assms show ?thesis by (simp add: conn_send_def bytes_verify_wire)
qed

section \<open>The claims\<close>

text \<open>
  Claim C10. Handling a received pure ACK segment (ACK bit set, FIN clear) while teardown
  is \<open>NO_CLOSE\<close> returns, leaves the engine running, and changes neither \<open>ackno\<close>,
  \<open>last_ackno\<close>, \<open>rcv_window_used\<close>, the Receive Queue nor the connection (nothing is
  emitted, nothing is written to the sink); when the Send Queue is empty the whole engine
  state, timer fields included, is unchanged. This holds whether or not the segment passes
  the length and checksum tests.
\<close>

theorem pure_ack_frame:
  assumes "seg_flags segment AND ACK \<noteq> 0" and "seg_flags segment AND FIN = 0"
    and "segment_teardown state = NO_CLOSE"
  shows "\<exists>state'. ctcp_receive state segment len = Some (Running state')
           \<and> ackno (conn_state state') = ackno (conn_state state)
           \<and> last_ackno (conn_state state') = last_ackno (conn_state state)
           \<and> rcv_window_used (conn_state state') = rcv_window_used (conn_state state)
           \<and> rx_state state' = rx_state state
           \<and> conn state' = conn state
           \<and> (tx_state state = [] \<longrightarrow> state' = state)"
  using assms
  by (auto simp: ctcp_receive_def segment_type_def Let_def ack_loop_frame split: list.splits)

theorem pure_ack_frame_witness:
  "seg_flags ack_2001 AND ACK \<noteq> 0 \<and> seg_flags ack_2001 AND FIN = 0
   \<and> segment_teardown sender_state = NO_CLOSE
   \<and> (\<exists>state'. ctcp_receive sender_state ack_2001 18 = Some (Running state')
           \<and> ackno (conn_state state') = ackno (conn_state sender_state)
           \<and> last_ackno (conn_state state') = last_ackno (conn_state sender_state)
           \<and> rcv_window_used (conn_state state') = rcv_window_used (conn_state sender_state)
           \<and> rx_state state' = rx_state sender_state
           \<and> conn state' = conn sender_state)
   \<and> seg_flags ack_1 AND ACK \<noteq> 0 \<and> seg_flags ack_1 AND FIN = 0
   \<and> segment_teardown after_hello = NO_CLOSE \<and> tx_state after_hello = []
   \<and> ctcp_receive after_hello ack_1 18 = Some (Running after_hello)"
proof -
  have h1: "seg_flags ack_2001 AND ACK \<noteq> 0" by (simp add: ack_2001_def ACK_def)
  have h2: "seg_flags ack_2001 AND FIN = 0" by (simp add: ack_2001_def FIN_def)
  have h3: "segment_teardown sender_state = NO_CLOSE" by (simp add: sender_state_def)
  have g1: "seg_flags ack_1 AND ACK \<noteq> 0" by (simp add: ack_1_def ACK_def)
  have g2: "seg_flags ack_1 AND FIN = 0" by (simp add: ack_1_def FIN_def)
  have g3: "segment_teardown after_hello = NO_CLOSE" by (simp add: after_hello_def)
  have g4: "tx_state after_hello = []" by (simp add: after_hello_def)
  from pure_ack_frame [OF g1 g2 g3, of 18] g4
  have "ctcp_receive after_hello ack_1 18 = Some (Running after_hello)" by auto
  with pure_ack_frame [OF h1 h2 h3, of 18] h1 h2 h3 g1 g2 g3 g4 show ?thesis by blast
qed

text \<open>
  Claim C6, as amended. A pure ACK segment with acknowledgement number \<open>A\<close> that passes the
  length and checksum tests, received while teardown is \<open>NO_CLOSE\<close>, leaves the state
  unchanged when the Send Queue is empty or \<open>A\<close> is below the tag of its head. Otherwise
  the longest prefix of the Send Queue whose tags are positive and at most \<open>A\<close> is dropped,
  \<open>seqno\<close> becomes the tag of the last element dropped, \<open>send_window_used\<close> goes down by
  the payload lengths of the elements dropped, the timer is disarmed if \<open>A = next_seqno\<close>
  and keeps its state if not, and \<open>counter\<close> and \<open>time_out_num\<close> become 0.
\<close>

theorem cumulative_ack:
  assumes "seg_flags segment AND ACK \<noteq> 0" and "seg_flags segment AND FIN = 0"
    and "segment_teardown state = NO_CLOSE"
    and "len = unat (seg_len segment)"
    and "seg_cksum segment = cksum (take len (wire_bytes (segment\<lparr>seg_cksum := 0\<rparr>)))"
  shows "ctcp_receive state segment len = Some (Running
     (if tx_state state = [] \<or> seg_ackno segment < segment_next_seqno (hd (tx_state state))
      then state
      else state
        \<lparr>tx_state := dropWhile (acked (seg_ackno segment)) (tx_state state),
         conn_state := (conn_state state)
           \<lparr>seqno := (if takeWhile (acked (seg_ackno segment)) (tx_state state) = []
                      then seqno (conn_state state)
                      else segment_next_seqno
                             (last (takeWhile (acked (seg_ackno segment)) (tx_state state)))),
            send_window_used := send_window_used (conn_state state)
              - (\<Sum>node\<leftarrow>takeWhile (acked (seg_ackno segment)) (tx_state state).
                   word_of_int (buffer_size node))\<rparr>,
         ack_state := (ack_state state)
           \<lparr>time_out := time_out (ack_state state)
                          \<and> seg_ackno segment \<noteq> next_seqno (conn_state state),
            counter := 0, time_out_num := 0\<rparr>\<rparr>))"
proof (cases "tx_state state")
  case Nil
  with assms show ?thesis
    by (simp add: ctcp_receive_def segment_type_def)
next
  case (Cons node nodes)
  show ?thesis
  proof (cases "seg_ackno segment < segment_next_seqno node")
    case True
    then have "\<not> segment_next_seqno node \<le> seg_ackno segment" by simp
    with True Cons assms show ?thesis
      by (simp add: ctcp_receive_def segment_type_def del: ack_loop.simps)
  next
    case False
    then have le: "segment_next_seqno node \<le> seg_ackno segment" by simp
    have q: "fst (ack_loop (seg_ackno segment) (tx_state state) (conn_state state))
          = dropWhile (acked (seg_ackno segment)) (tx_state state)"
      by (rule ack_loop_queue)
    note c = ack_loop_counters [of "seg_ackno segment" "tx_state state" "conn_state state"]
    have "ctcp_receive state segment len =
       (let r = ack_loop (seg_ackno segment) (tx_state state) (conn_state state);
            state1 = state\<lparr>tx_state := fst r, conn_state := snd r\<rparr>;
            state2 = (if seg_ackno segment = next_seqno (conn_state state1)
                      then state1\<lparr>ack_state := (ack_state state1)\<lparr>time_out := False\<rparr>\<rparr>
                      else state1)
        in Some (Running (state2\<lparr>ack_state := (ack_state state2)
                                    \<lparr>counter := 0, time_out_num := 0\<rparr>\<rparr>)))"
      using le Cons assms
      by (simp add: ctcp_receive_def segment_type_def del: ack_loop.simps)
    also have "\<dots> = Some (Running (state
        \<lparr>tx_state := dropWhile (acked (seg_ackno segment)) (tx_state state),
         conn_state := (conn_state state)
           \<lparr>seqno := (if takeWhile (acked (seg_ackno segment)) (tx_state state) = []
                      then seqno (conn_state state)
                      else segment_next_seqno
                             (last (takeWhile (acked (seg_ackno segment)) (tx_state state)))),
            send_window_used := send_window_used (conn_state state)
              - (\<Sum>node\<leftarrow>takeWhile (acked (seg_ackno segment)) (tx_state state).
                   word_of_int (buffer_size node))\<rparr>,
         ack_state := (ack_state state)
           \<lparr>time_out := time_out (ack_state state)
                          \<and> seg_ackno segment \<noteq> next_seqno (conn_state state),
            counter := 0, time_out_num := 0\<rparr>\<rparr>))"
      unfolding Let_def q c by simp
    finally show ?thesis using False Cons by simp
  qed
qed

theorem cumulative_ack_witness:
  "seg_flags ack_2001 AND ACK \<noteq> 0 \<and> seg_flags ack_2001 AND FIN = 0
   \<and> segment_teardown sender_state = NO_CLOSE
   \<and> 18 = unat (seg_len ack_2001)
   \<and> seg_cksum ack_2001 = cksum (take 18 (wire_bytes (ack_2001\<lparr>seg_cksum := 0\<rparr>)))
   \<and> ctcp_receive sender_state ack_2001 18 = Some (Running (sender_state
        \<lparr>tx_state := [\<lparr>segment_next_seqno = 0, buffer_size = 500,
                        tx_buffer = replicate 500 99\<rparr>],
         conn_state := (conn_state sender_state)\<lparr>seqno := 2001, send_window_used := 0\<rparr>,
         ack_state := (ack_state sender_state)
                        \<lparr>time_out := False, counter := 0, time_out_num := 0\<rparr>\<rparr>))"
proof -
  have h1: "seg_flags ack_2001 AND ACK \<noteq> 0" by (simp add: ack_2001_def ACK_def)
  have h2: "seg_flags ack_2001 AND FIN = 0" by (simp add: ack_2001_def FIN_def)
  have h3: "segment_teardown sender_state = NO_CLOSE" by (simp add: sender_state_def)
  have h4: "18 = unat (seg_len ack_2001)" by (simp add: ack_2001_def)
  have h5: "seg_cksum ack_2001 = cksum (take 18 (wire_bytes (ack_2001\<lparr>seg_cksum := 0\<rparr>)))"
    by (simp add: ack_2001_def wire_defs)
  have "ctcp_receive sender_state ack_2001 18 = Some (Running (sender_state
        \<lparr>tx_state := [\<lparr>segment_next_seqno = 0, buffer_size = 500,
                        tx_buffer = replicate 500 99\<rparr>],
         conn_state := (conn_state sender_state)\<lparr>seqno := 2001, send_window_used := 0\<rparr>,
         ack_state := (ack_state sender_state)
                        \<lparr>time_out := False, counter := 0, time_out_num := 0\<rparr>\<rparr>))"
    using cumulative_ack [OF h1 h2 h3 h4 h5]
    by (simp add: sender_state_def ack_2001_def acked_def)
  with h1 h2 h3 h4 h5 show ?thesis by blast
qed

text \<open>
  The claim as written fails: an ACK below the head's tag (here the duplicate ACK for
  sequence number 1 while 1001 is the first tag outstanding) resets neither \<open>counter\<close>
  nor \<open>time_out_num\<close>.
\<close>

theorem cumulative_ack_counterexample:
  "seg_flags ack_1 AND ACK \<noteq> 0 \<and> seg_flags ack_1 AND FIN = 0
   \<and> segment_teardown sender_state = NO_CLOSE
   \<and> 18 = unat (seg_len ack_1)
   \<and> seg_cksum ack_1 = cksum (take 18 (wire_bytes (ack_1\<lparr>seg_cksum := 0\<rparr>)))
   \<and> ctcp_receive sender_state ack_1 18 = Some (Running sender_state)
   \<and> counter (ack_state sender_state) = 3
   \<and> time_out_num (ack_state sender_state) = 2"
  by (simp add: ctcp_receive_def segment_type_def sender_state_def ack_1_def wire_defs
      ACK_def FIN_def word_le_nat_alt)

text \<open>
  Claim C2, as amended. For a received segment that is not answered as a duplicate
  (not: sequence number equal to \<open>last_ackno\<close>, different from \<open>ackno\<close>, ACK bit clear):
  if its declared length differs from the received byte count or its checksum does not
  verify, the engine emits nothing and its whole state is unchanged; if it passes both
  tests and is a DATA segment whose payload does not fit the receive window, the payload
  is not queued and the counters are not advanced: the engine does exactly what a
  delivery attempt (\<^verbatim>\<open>ctcp_output\<close>) on the unchanged state does.
\<close>

theorem transient_drop:
  assumes "\<not> duplicate_data state segment"
  shows "(len \<noteq> unat (seg_len segment) \<or> \<not> checksum_ok segment len
            \<longrightarrow> ctcp_receive state segment len = Some (Running state))
       \<and> (len = unat (seg_len segment) \<and> checksum_ok segment len
          \<and> segment_type segment = DATA_SEG \<and> \<not> fits_window state len
            \<longrightarrow> ctcp_receive state segment len = Some (Running (ctcp_output state)))"
proof (intro conjI impI)
  assume "len \<noteq> unat (seg_len segment) \<or> \<not> checksum_ok segment len"
  with assms show "ctcp_receive state segment len = Some (Running state)"
    by (auto simp: ctcp_receive_alt)
next
  assume "len = unat (seg_len segment) \<and> checksum_ok segment len
          \<and> segment_type segment = DATA_SEG \<and> \<not> fits_window state len"
  with assms show "ctcp_receive state segment len = Some (Running (ctcp_output state))"
    by (auto simp: ctcp_receive_data)
qed

theorem transient_drop_witness:
  "\<not> duplicate_data (ctcp_init (idle_conn 100) ex_cfg) hello_corrupted
   \<and> \<not> checksum_ok hello_corrupted 23
   \<and> ctcp_receive (ctcp_init (idle_conn 100) ex_cfg) hello_corrupted 23
       = Some (Running (ctcp_init (idle_conn 100) ex_cfg))
   \<and> \<not> duplicate_data full_receiver late_segment
   \<and> 23 = unat (seg_len late_segment) \<and> checksum_ok late_segment 23
   \<and> segment_type late_segment = DATA_SEG \<and> \<not> fits_window full_receiver 23
   \<and> ctcp_receive full_receiver late_segment 23 = Some (Running (ctcp_output full_receiver))"
proof -
  have d1: "\<not> duplicate_data (ctcp_init (idle_conn 100) ex_cfg) hello_corrupted"
    by (simp add: duplicate_data_def ctcp_init_def hello_corrupted_def hello_segment_def)
  have c1: "\<not> checksum_ok hello_corrupted 23"
    by (simp add: checksum_ok_def hello_corrupted_def hello_segment_def wire_defs)
  have d2: "\<not> duplicate_data full_receiver late_segment"
    by (simp add: duplicate_data_def full_receiver_def late_segment_def)
  have l2: "23 = unat (seg_len late_segment)" by (simp add: late_segment_def)
  have c2: "checksum_ok late_segment 23"
    by (simp add: checksum_ok_def late_segment_def hello_def wire_defs)
  have t2: "segment_type late_segment = DATA_SEG"
    by (simp add: segment_type_def late_segment_def FIN_def ACK_def)
  have f2: "\<not> fits_window full_receiver 23"
    by (simp add: fits_window_def full_receiver_def sizeof_ctcp_segment_def)
  from transient_drop [OF d1, of 23] transient_drop [OF d2, of 23] d1 c1 d2 l2 c2 t2 f2
  show ?thesis by blast
qed

text \<open>
  The claim as written fails: the duplicate test comes before the length and checksum
  tests, so a truncated copy of the segment accepted last is answered with an ACK.
\<close>

theorem transient_drop_counterexample:
  "20 \<noteq> unat (seg_len hello_truncated)
   \<and> ctcp_receive after_hello hello_truncated 20
       = Some (Running (after_hello\<lparr>conn := (conn after_hello)\<lparr>datagrams := [ack_6, ack_1]\<rparr>\<rparr>))"
  by (simp add: engine_defs wire_defs hello_truncated_def hello_segment_def after_hello_def
      ack_6_def ack_1_def)

text \<open>
  Claim C3, as amended. A received DATA segment (FIN and ACK clear) of at least the size
  of a header is appended to the Receive Queue exactly when it is not answered as a
  duplicate, its length field equals the received byte count, its checksum verifies and
  its payload fits the receive window; the sequence number is not compared with
  \<open>ackno\<close>. After the tests the engine runs the delivery loop on the queue
  \<open>rx_state mid\<close>, or answers the duplicate, or returns. (A shorter segment that gets
  through the tests is not appended: by \<open>short_data_segment_crashes\<close> the copy of its
  payload crashes the engine.)
\<close>

theorem data_acceptance:
  assumes "segment_type segment = DATA_SEG" and "sizeof_ctcp_segment \<le> len"
  shows "\<exists>mid. rx_state mid = (if accepted state segment len
                               then rx_state state @ [rx_element segment len]
                               else rx_state state)
           \<and> ctcp_receive state segment len = Some (Running
                (if duplicate_data state segment
                 then ctcp_send_flags mid (last_ackno (conn_state mid)) ACK
                 else if len = unat (seg_len segment) \<and> checksum_ok segment len
                 then ctcp_output mid
                 else mid))"
proof (cases "accepted state segment len")
  case True
  let ?mid = "state\<lparr>conn_state := (conn_state state)
                 \<lparr>last_ackno := ackno (conn_state state),
                  ackno := seg_seqno segment + ucast (seg_len segment)
                           - of_nat sizeof_ctcp_segment,
                  rcv_window_used := rcv_window_used (conn_state state)
                     + word_of_int (int len - int sizeof_ctcp_segment)\<rparr>,
               rx_state := rx_state state @ [rx_element segment len]\<rparr>"
  from True have nd: "\<not> duplicate_data state segment" and l: "len = unat (seg_len segment)"
    and c: "checksum_ok segment len" and f: "fits_window state len"
    by (auto simp: accepted_def)
  from assms(2) have "ctcp_receive state segment len = Some (Running (ctcp_output ?mid))"
    by (simp add: ctcp_receive_data [OF assms(1)] nd c f l [symmetric])
  with True nd c l show ?thesis
    by (intro exI [of _ ?mid]) simp
next
  case False
  with assms(2) have "ctcp_receive state segment len = Some (Running
                (if duplicate_data state segment
                 then ctcp_send_flags state (last_ackno (conn_state state)) ACK
                 else if len = unat (seg_len segment) \<and> checksum_ok segment len
                 then ctcp_output state
                 else state))"
    by (auto simp: ctcp_receive_data [OF assms(1)] accepted_def)
  with False show ?thesis
    by (intro exI [of _ state]) simp
qed

theorem data_acceptance_witness:
  "segment_type stray_segment = DATA_SEG \<and> sizeof_ctcp_segment \<le> 23
   \<and> (\<exists>mid. rx_state mid = (if accepted (ctcp_init (idle_conn 0) ex_cfg) stray_segment 23
                  then rx_state (ctcp_init (idle_conn 0) ex_cfg) @ [rx_element stray_segment 23]
                  else rx_state (ctcp_init (idle_conn 0) ex_cfg))
           \<and> ctcp_receive (ctcp_init (idle_conn 0) ex_cfg) stray_segment 23 = Some (Running
                (if duplicate_data (ctcp_init (idle_conn 0) ex_cfg) stray_segment
                 then ctcp_send_flags mid (last_ackno (conn_state mid)) ACK
                 else if 23 = unat (seg_len stray_segment) \<and> checksum_ok stray_segment 23
                 then ctcp_output mid
                 else mid)))
   \<and> accepted (ctcp_init (idle_conn 0) ex_cfg) stray_segment 23"
proof -
  have h: "segment_type stray_segment = DATA_SEG"
    by (simp add: segment_type_def stray_segment_def FIN_def ACK_def)
  have a: "accepted (ctcp_init (idle_conn 0) ex_cfg) stray_segment 23"
    by (simp add: accepted_def duplicate_data_def checksum_ok_def fits_window_def
        ctcp_init_def ex_cfg_def stray_segment_def hello_def wire_defs sizeof_ctcp_segment_def)
  have b: "sizeof_ctcp_segment \<le> 23" by (simp add: sizeof_ctcp_segment_def)
  from data_acceptance [OF h b, of "ctcp_init (idle_conn 0) ex_cfg"] h a b
  show ?thesis by blast
qed

text \<open>
  The claim as written fails: a fresh engine expects sequence number 1 and queues a
  segment that carries 500.
\<close>

theorem data_acceptance_counterexample:
  "segment_type stray_segment = DATA_SEG
   \<and> seg_seqno stray_segment \<noteq> ackno (conn_state (ctcp_init (idle_conn 0) ex_cfg))
   \<and> ctcp_receive (ctcp_init (idle_conn 0) ex_cfg) stray_segment 23
       = Some (Running ((ctcp_init (idle_conn 0) ex_cfg)
           \<lparr>conn_state := (conn_state (ctcp_init (idle_conn 0) ex_cfg))
                             \<lparr>ackno := 505, rcv_window_used := 5\<rparr>,
            rx_state := [\<lparr>byte_used = 0, byte_left = 5, rx_buffer = hello\<rparr>]\<rparr>))"
  by (simp add: engine_defs wire_defs stray_segment_def hello_def)

text \<open>
  Claim C7, as amended. Replaying a DATA segment whose sequence number equals
  \<open>last_ackno\<close> and differs from \<open>ackno\<close> (by \<open>replay_is_duplicate\<close>: the segment
  accepted last, when it arrived in order with a payload) leaves all counters, the timer
  state and both queues unchanged and emits exactly one segment, an ACK without payload
  carrying \<open>last_ackno\<close>.
\<close>

theorem duplicate_replay:
  assumes "duplicate_data state segment"
  shows "\<exists>ack. ctcp_receive state segment len
                 = Some (Running (state\<lparr>conn := (conn state)
                      \<lparr>datagrams := datagrams (conn state) @ [ack]\<rparr>\<rparr>))
           \<and> seg_ackno ack = last_ackno (conn_state state)
           \<and> seg_flags ack = ACK \<and> seg_data ack = []"
proof -
  from ctcp_send_flags_emits [of state "last_ackno (conn_state state)" ACK]
  obtain ack where "ctcp_send_flags state (last_ackno (conn_state state)) ACK
            = state\<lparr>conn := (conn state)\<lparr>datagrams := datagrams (conn state) @ [ack]\<rparr>\<rparr>"
    and "seg_ackno ack = last_ackno (conn_state state)"
    and "seg_flags ack = ACK" and "seg_data ack = []"
    by blast
  with assms show ?thesis
    by (intro exI [of _ ack]) (simp add: ctcp_receive_alt)
qed


theorem duplicate_replay_witness:
  "duplicate_data after_hello hello_segment
   \<and> (\<exists>ack. ctcp_receive after_hello hello_segment 23
                 = Some (Running (after_hello\<lparr>conn := (conn after_hello)
                      \<lparr>datagrams := datagrams (conn after_hello) @ [ack]\<rparr>\<rparr>))
           \<and> seg_ackno ack = last_ackno (conn_state after_hello)
           \<and> seg_flags ack = ACK \<and> seg_data ack = [])"
proof -
  have h: "duplicate_data after_hello hello_segment"
    by (simp add: duplicate_data_def after_hello_def hello_segment_def ACK_def)
  from duplicate_replay [OF h, of 23] h show ?thesis by blast
qed

text \<open>
  The claim as written fails: after two segments the engine remembers 6 and 11 only, and
  a replay of the first segment (sequence number 1, acknowledged long ago) is accepted as
  new data: its payload reaches the sink a second time and \<open>ackno\<close> goes back to 6.
\<close>

theorem duplicate_replay_counterexample:
  "ctcp_receive (ctcp_init (idle_conn 100) ex_cfg) hello_segment 23 = Some (Running after_hello)
   \<and> ctcp_receive after_hello world_segment 23 = Some (Running after_world)
   \<and> datagrams (conn after_world) = [ack_6, ack_11]
   \<and> ctcp_receive after_world hello_segment 23
       = Some (Running (after_world
           \<lparr>conn := (conn after_world)
              \<lparr>datagrams := [ack_6, ack_11, ack_6], stdout_space := 85,
               stdout_bytes := hello @ world @ hello\<rparr>,
            conn_state := (conn_state after_world)\<lparr>ackno := 6, last_ackno := 11\<rparr>\<rparr>))"
  by (simp add: engine_defs wire_defs hello_segment_def world_segment_def hello_def world_def
      after_hello_def after_world_def ack_6_def ack_11_def)

text \<open>
  Claim C5. Every event handler runs to completion on every input and every engine state.
  The code does not: at end-of-source \<^verbatim>\<open>ctcp_read\<close> enters \<^verbatim>\<open>while(q->length > 0);\<close> on
  both queues, and \<^verbatim>\<open>ctcp_receive_fin_with_no_ack\<close> does so on the Receive Queue; with an
  element queued the loop never ends. The theorem evaluates both handlers: the sender
  with payloads outstanding whose source ends, and the receiver whose sink has stalled
  when the peer's FIN arrives.
\<close>

theorem busy_wait_never_returns:
  "ctcp_read sender_at_eof = None \<and> ctcp_receive full_receiver fin_1 18 = None"
proof
  have "ctcp_read_loop sender_at_eof = None"
    by (rule ctcp_read_loop_eof_spins) (simp_all add: sender_at_eof_def sender_state_def idle_conn_def)
  then show "ctcp_read sender_at_eof = None" by (simp add: ctcp_read_def)
  show "ctcp_receive full_receiver fin_1 18 = None"
    by (simp add: engine_defs wire_defs ctcp_receive_fin_with_no_ack_def full_receiver_def
        fin_1_def busy_wait_spins)
qed

text \<open>
  Claim C1. Any byte stream fed to one side comes out of the other side's sink and the
  FIN handshake completes. The code does not get that far on the spec's first scenario:
  the source holds "hello" followed by end-of-source, \<^verbatim>\<open>ctcp_read\<close> queues the five bytes,
  reads end-of-source in the same call and spins on the Send Queue it has just filled,
  before anything is sent.
\<close>

theorem hello_then_eof_never_returns:
  "ctcp_read (ctcp_init hello_then_eof ex_cfg) = None"
proof -
  let ?s1 = "(ctcp_init ((idle_conn 100)\<lparr>stdin_eof := True\<rparr>) ex_cfg)
               \<lparr>tx_state := [\<lparr>segment_next_seqno = 0, buffer_size = 5, tx_buffer = hello\<rparr>]\<rparr>"
  have "ctcp_read_loop (ctcp_init hello_then_eof ex_cfg) = ctcp_read_loop ?s1"
    by (subst ctcp_read_loop.simps)
       (simp add: conn_input_def ctcp_init_def hello_then_eof_def idle_conn_def hello_def
          MAX_SEG_DATA_SIZE_def truncate_sentinel_def Let_def)
  also have "\<dots> = None"
    by (rule ctcp_read_loop_eof_spins) (simp_all add: ctcp_init_def idle_conn_def)
  finally show ?thesis by (simp add: ctcp_read_def)
qed

text \<open>
  Claim C8. In one timer tick an armed engine's counter is incremented once, and on the
  tick where \<open>time_out_num\<close> reaches 6 the engine emits one FIN and the walk goes on to
  the next engine. The code's \<^verbatim>\<open>continue\<close> does not advance \<^verbatim>\<open>cur_state\<close>, so the same
  engine is visited a second time in that tick: its counter is incremented again (it ends
  at 1 instead of 0), and with \<^verbatim>\<open>timer_overflow\<close> = 1 the second visit is a further
  timeout that emits a second FIN and takes \<open>time_out_num\<close> to 7.
\<close>

theorem timer_continue_revisits:
  "ctcp_timer [fifth_timeout]
     = [fifth_timeout
          \<lparr>conn := (idle_conn 0)\<lparr>datagrams := [fin_1]\<rparr>,
           ack_state := \<lparr>time_out_num = 6, counter = 1, timer_overflow = 5, time_out = True\<rparr>,
           segment_teardown := ACTIVE_CLOSE\<rparr>]
   \<and> ctcp_timer [fifth_timeout_fast]
     = [fifth_timeout_fast
          \<lparr>conn := (idle_conn 0)\<lparr>datagrams := [fin_1, fin_1]\<rparr>,
           ack_state := \<lparr>time_out_num = 7, counter = 0, timer_overflow = 1, time_out = True\<rparr>,
           segment_teardown := ACTIVE_CLOSE\<rparr>]"
  by (simp add: ctcp_timer_def ctcp_timer_loop.simps(2) ctcp_timer_body_def engine_defs wire_defs
      fifth_timeout_def fifth_timeout_fast_def sender_state_def fin_1_def)

text \<open>
  Claim C9. For every datagram the engine emits (DATA, ACK or FIN), the checksum it carries
  is the checksum recomputed over the emitted bytes with the checksum field zeroed. The
  code breaks this when the carrier takes fewer bytes than it is offered. The loop that
  is to send the rest adds \<^verbatim>\<open>segment_len - byte_left\<close> to a pointer to a segment, which
  moves it by that many headers of 18 bytes, not by that many bytes. Here the carrier
  takes 10 bytes in the first call, of the ACK a fresh engine sends and of the DATA
  segment \<^verbatim>\<open>ctcp_read\<close> sends for \<open>hello\<close>: the second call of \<^verbatim>\<open>conn_send\<close> is given
  what lies 180 bytes after the start of the segment, that is 162 (157) bytes beyond its
  end, whatever the process holds there. Neither of the two datagrams on the wire holds a
  checksum that verifies.
\<close>

theorem short_send_leaves_segment:
  "datagrams (conn (ctcp_send_flags (ctcp_init (idle_conn 0) ex_cfg) 1 ACK)) = [ack_1]
   \<and> send_retry_loop [10] (wire_bytes ack_1 @ beyond) sizeof_ctcp_segment sizeof_ctcp_segment
       = [take 10 (wire_bytes ack_1), take 8 (drop 162 beyond)]
   \<and> \<not> bytes_verify (take 10 (wire_bytes ack_1))
   \<and> \<not> bytes_verify (take 8 (drop 162 beyond))
   \<and> map_option (\<lambda>state'. datagrams (conn state')) (ctcp_read (ctcp_init hello_source ex_cfg))
       = Some [hello_segment]
   \<and> send_retry_loop [10] (wire_bytes hello_segment @ beyond) 23 23
       = [take 10 (wire_bytes hello_segment), take 13 (drop 157 beyond)]
   \<and> \<not> bytes_verify (take 10 (wire_bytes hello_segment))
   \<and> \<not> bytes_verify (take 13 (drop 157 beyond))"
proof -
  have "datagrams (conn (ctcp_send_flags (ctcp_init (idle_conn 0) ex_cfg) 1 ACK)) = [ack_1]"
    by (simp add: engine_defs wire_defs ack_1_def)
  moreover have "send_retry_loop [10] (wire_bytes ack_1 @ beyond)
                   sizeof_ctcp_segment sizeof_ctcp_segment
                 = [take 10 (wire_bytes ack_1), take 8 (drop 162 beyond)]"
    by (simp add: conn_send_def sizeof_ctcp_segment_def wire_bytes_def be32_def be16_def
        ack_1_def)
  moreover have "send_retry_loop [10] (wire_bytes hello_segment @ beyond) 23 23
                 = [take 10 (wire_bytes hello_segment), take 13 (drop 157 beyond)]"
    by (simp add: conn_send_def sizeof_ctcp_segment_def wire_bytes_def be32_def be16_def
        hello_segment_def hello_def)
  moreover have "map_option (\<lambda>state'. datagrams (conn state'))
                   (ctcp_read (ctcp_init hello_source ex_cfg)) = Some [hello_segment]"
    by (simp add: hello_sent)
  ultimately show ?thesis
    by (simp add: bytes_verify_def sizeof_ctcp_segment_def)
qed

text \<open>
  Claim C4, as amended. The freshly initialised engine satisfies, and every event handler
  (\<^verbatim>\<open>ctcp_read\<close>, \<^verbatim>\<open>ctcp_receive\<close> on a datagram of at least header size, \<^verbatim>\<open>ctcp_output\<close>,
  \<^verbatim>\<open>ctcp_timer\<close>) preserves, the invariant \<open>engine_inv\<close>: \<open>send_window_used \<le> send_window\<close>,
  \<open>rcv_window_used \<le> rcv_window\<close>, \<open>rcv_window_used\<close> is the number of bytes the Receive
  Queue holds, and the transmitted elements of the Send Queue are a prefix whose tags
  start at \<open>seqno\<close> plus the first payload length and go up by each payload length, the
  elements after it carrying tag 0. \<open>ackno\<close> and \<open>last_ackno\<close> are unchanged by
  \<^verbatim>\<open>ctcp_read\<close>, \<^verbatim>\<open>ctcp_output\<close> and \<^verbatim>\<open>ctcp_timer\<close>; \<^verbatim>\<open>ctcp_receive\<close> keeps \<open>ackno\<close>
  non-decreasing and \<open>last_ackno \<le> ackno\<close> for a segment that arrives in order.
\<close>

theorem handlers_preserve_invariants:
  assumes "engine_inv state" and "list_all engine_inv state_list"
  shows "engine_inv (ctcp_init c cfg)
       \<and> send_window_used (conn_state state) \<le> send_window (conn_state state)
       \<and> rcv_window_used (conn_state state) \<le> rcv_window (conn_state state)
       \<and> (\<forall>state'. ctcp_read state = Some state'
             \<longrightarrow> engine_inv state'
                 \<and> ackno (conn_state state') = ackno (conn_state state)
                 \<and> last_ackno (conn_state state') = last_ackno (conn_state state))
       \<and> (\<forall>state'. sizeof_ctcp_segment \<le> len
                    \<and> ctcp_receive state segment len = Some (Running state')
             \<longrightarrow> engine_inv state'
                 \<and> (in_order state segment len
                     \<and> last_ackno (conn_state state) \<le> ackno (conn_state state)
                    \<longrightarrow> ackno (conn_state state) \<le> ackno (conn_state state')
                        \<and> last_ackno (conn_state state') \<le> ackno (conn_state state')))
       \<and> engine_inv (ctcp_output state)
       \<and> ackno (conn_state (ctcp_output state)) = ackno (conn_state state)
       \<and> last_ackno (conn_state (ctcp_output state)) = last_ackno (conn_state state)
       \<and> list_all engine_inv (ctcp_timer state_list)
       \<and> map (\<lambda>s. ackno (conn_state s)) (ctcp_timer state_list)
           = map (\<lambda>s. ackno (conn_state s)) state_list
       \<and> map (\<lambda>s. last_ackno (conn_state s)) (ctcp_timer state_list)
           = map (\<lambda>s. last_ackno (conn_state s)) state_list"
proof -
  from assms(1) have w: "send_window_used (conn_state state) \<le> send_window (conn_state state)"
      "rcv_window_used (conn_state state) \<le> rcv_window (conn_state state)"
    by (simp_all add: engine_inv_def tx_inv_def rx_inv_def)
  have r: "\<forall>state'. ctcp_read state = Some state'
             \<longrightarrow> engine_inv state'
                 \<and> ackno (conn_state state') = ackno (conn_state state)
                 \<and> last_ackno (conn_state state') = last_ackno (conn_state state)"
    using assms(1) by (blast dest: ctcp_read_inv)
  have d: "\<forall>state'. sizeof_ctcp_segment \<le> len
                    \<and> ctcp_receive state segment len = Some (Running state')
             \<longrightarrow> engine_inv state'
                 \<and> (in_order state segment len
                     \<and> last_ackno (conn_state state) \<le> ackno (conn_state state)
                    \<longrightarrow> ackno (conn_state state) \<le> ackno (conn_state state')
                        \<and> last_ackno (conn_state state') \<le> ackno (conn_state state'))"
    using assms(1) by (blast intro: ctcp_receive_inv dest: ctcp_receive_ackno)
  have o: "engine_inv (ctcp_output state)" using assms(1) by (rule ctcp_output_inv)
  note t = ctcp_timer_inv [OF assms(2)]
  from w r d o t show ?thesis
    by (simp only: engine_inv_init ctcp_output_frame simp_thms)
qed

theorem handlers_preserve_invariants_witness:
  "engine_inv (ctcp_init hello_source ex_cfg)
   \<and> list_all engine_inv [fifth_timeout]
   \<and> (\<exists>state'. ctcp_read (ctcp_init hello_source ex_cfg) = Some state' \<and> engine_inv state')
   \<and> (\<exists>state'. sizeof_ctcp_segment \<le> 23
         \<and> ctcp_receive (ctcp_init hello_source ex_cfg) hello_segment 23 = Some (Running state')
         \<and> in_order (ctcp_init hello_source ex_cfg) hello_segment 23
         \<and> last_ackno (conn_state (ctcp_init hello_source ex_cfg))
             \<le> ackno (conn_state (ctcp_init hello_source ex_cfg))
         \<and> engine_inv state'
         \<and> ackno (conn_state (ctcp_init hello_source ex_cfg)) \<le> ackno (conn_state state')
         \<and> last_ackno (conn_state state') \<le> ackno (conn_state state'))
   \<and> list_all engine_inv (ctcp_timer [fifth_timeout])"
proof -
  let ?s = "ctcp_init hello_source ex_cfg"
  have h1: "engine_inv ?s" by (rule engine_inv_init)
  have h2: "list_all engine_inv [fifth_timeout]"
    by (simp add: engine_inv_def tx_inv_def rx_inv_def fifth_timeout_def sender_state_def)
  have h3: "sizeof_ctcp_segment \<le> 23" by (simp add: sizeof_ctcp_segment_def)
  have h4: "in_order ?s hello_segment 23"
    by (simp add: in_order_def ctcp_init_def hello_segment_def)
  have h5: "last_ackno (conn_state ?s) \<le> ackno (conn_state ?s)" by (simp add: ctcp_init_def)
  have h6: "\<exists>state'. ctcp_receive ?s hello_segment 23 = Some (Running state')"
    by (simp add: ctcp_receive_data segment_type_def hello_segment_def FIN_def ACK_def
        sizeof_ctcp_segment_def)
  from handlers_preserve_invariants [OF h1 h2, of hello_source ex_cfg 23 hello_segment]
    h1 h2 h3 h4 h5 h6 hello_sent
  show ?thesis by auto
qed

text \<open>
  The claim as written fails: the engine does not compare a sequence number with
  \<open>ackno\<close>. A receiver that has acknowledged up to 11 and gets the FIN of a peer that
  still stands at sequence number 1 sets \<open>ackno\<close> back to 2 and \<open>last_ackno\<close> to 11.
\<close>

theorem handlers_preserve_invariants_counterexample:
  "engine_inv after_world
   \<and> last_ackno (conn_state after_world) \<le> ackno (conn_state after_world)
   \<and> map_option outcome_counters (ctcp_receive after_world fin_1 18)
       = Some (Some ((conn_state after_world)\<lparr>ackno := 2, last_ackno := 11\<rparr>))
   \<and> ackno (conn_state after_world) = 11 \<and> (2 :: 32 word) < 11"
  by (simp add: engine_inv_def tx_inv_def rx_inv_def engine_defs wire_defs
      ctcp_receive_fin_with_no_ack_def busy_wait_empty after_world_def fin_1_def
      ack_6_def ack_11_def word_le_nat_alt word_less_nat_alt)

end
